theory Spec2Isabelle
  imports Complex_Main "HOL-Library.AList"
begin

section \<open>Values\<close>

text \<open>
  A Python \<open>str\<close> is modelled as the list of its characters. Each \<open>char\<close> stands for the
  Unicode code point of the same number (U+0000 to U+00FF), so \<open>length\<close> counts code points
  as Python's \<open>len\<close> does; text with code points above U+00FF is outside the model.
  \<open>bytes\<close> values are byte lists of the same type.
\<close>

type_synonym str = string

text \<open>
  A request handler either returns, raises \<open>HTTPException(status_code, detail)\<close>, or lets
  another exception escape; an escaped exception is kept as its text \<open>str(exc)\<close>.
  A collaborator that may raise returns \<open>str + 'a\<close> with the text on the left.
\<close>

datatype error = HTTPException nat str | Uncaught str

text \<open>Truthiness of an optional string: \<open>None\<close> and the empty string are falsy.\<close>

fun truthy :: "str option \<Rightarrow> bool" where
  "truthy None = False"
| "truthy (Some s) = (s \<noteq> [])"

section \<open>Data model (lines 20 to 45)\<close>

record PendingSession =
  apple_id :: str
  app_password :: str
  session_dir :: str
  created_at :: real

record SessionPayload =
  file_name :: str
  data :: str

record SyncRequest =
  req_apple_id :: str
  req_app_password :: str
  req_session :: "SessionPayload option"
  req_limit :: "int option"

record TwoFactorRequest =
  session_id :: str
  code :: str

section \<open>Collaborators\<close>

subsection \<open>Text of an operating-system error\<close>

text \<open>
  \<open>str(exc)\<close> of an \<open>OSError\<close> raised for a path is
  \<open>[Errno n] message: repr(path)\<close>. \<open>repr\<close> of a string picks the double quote when
  the string has a single quote and no double quote, escapes the chosen quote and the
  backslash, writes tab, line feed and carriage return with their letters, and every other
  character that is not printable as a backslash, \<open>x\<close> and two hexadecimal digits.
\<close>

definition printable :: "char \<Rightarrow> bool" where
  "printable ch =
     (let n = (of_char ch :: nat)
      in (0x20 \<le> n \<and> n \<le> 0x7E) \<or> (0xA1 \<le> n \<and> n \<le> 0xAC) \<or> (0xAE \<le> n \<and> n \<le> 0xFF))"

definition hex_digit :: "nat \<Rightarrow> char" where
  "hex_digit n = ''0123456789abcdef'' ! (n mod 16)"

definition repr_char :: "char \<Rightarrow> char \<Rightarrow> str" where
  "repr_char quote ch =
     (if ch = quote \<or> ch = CHR 0x5C then [CHR 0x5C, ch]
      else if ch = CHR 0x09 then [CHR 0x5C, CHR ''t'']
      else if ch = CHR 0x0A then [CHR 0x5C, CHR ''n'']
      else if ch = CHR 0x0D then [CHR 0x5C, CHR ''r'']
      else if printable ch then [ch]
      else [CHR 0x5C, CHR ''x'', hex_digit (of_char ch div 16), hex_digit (of_char ch)])"

definition repr :: "str \<Rightarrow> str" where
  "repr s =
     (let quote = (if CHR 0x27 \<in> set s \<and> CHR 0x22 \<notin> set s then CHR 0x22 else CHR 0x27)
      in [quote] @ concat (map (repr_char quote) s) @ [quote])"

datatype errno = ENOENT | ENOTDIR | EISDIR | ENAMETOOLONG

fun strerror :: "errno \<Rightarrow> str" where
  "strerror ENOENT = ''[Errno 2] No such file or directory''"
| "strerror ENOTDIR = ''[Errno 20] Not a directory''"
| "strerror EISDIR = ''[Errno 21] Is a directory''"
| "strerror ENAMETOOLONG = ''[Errno 36] File name too long''"

definition oserror :: "errno \<Rightarrow> str \<Rightarrow> str" where
  "oserror e p = strerror e @ '': '' @ repr p"

subsection \<open>File system\<close>

text \<open>
  A POSIX file system whose file names are encoded in UTF-8, as an association list from
  path to node; the order of the list is the order in which \<open>os.listdir\<close> reports entries.
  Paths are compared literally. A file holds its content as text. Failures for lack of
  resources or permission (quota, read-only medium, access rights) are not modelled.
\<close>

datatype node = Dir | File str

type_synonym filesystem = "(str \<times> node) list"

text \<open>\<open>posixpath.basename\<close>: everything after the last slash.\<close>

definition basename :: "str \<Rightarrow> str" where
  "basename p = rev (takeWhile (\<lambda>c. c \<noteq> CHR ''/'') (rev p))"

text \<open>\<open>posixpath.join\<close> of two components.\<close>

definition join :: "str \<Rightarrow> str \<Rightarrow> str" where
  "join a b =
     (if take 1 b = ''/'' then b
      else if a = [] \<or> last a = CHR ''/'' then a @ b
      else a @ ''/'' @ b)"

text \<open>
  The number of bytes of a name in UTF-8: one for a code point below U+0080, two for the
  others of the model. A path component may have 255 bytes (\<open>NAME_MAX\<close>), a whole path
  4095 (\<open>PATH_MAX\<close> less the terminator).
\<close>

definition utf8_length :: "str \<Rightarrow> nat" where
  "utf8_length s = sum_list (map (\<lambda>ch. if (of_char ch :: nat) < 0x80 then 1 else 2) s)"

definition exists :: "filesystem \<Rightarrow> str \<Rightarrow> bool" where
  "exists disk p = (map_of disk p \<noteq> None)"

definition isfile :: "filesystem \<Rightarrow> str \<Rightarrow> bool" where
  "isfile disk p = (case map_of disk p of Some (File d) \<Rightarrow> True | _ \<Rightarrow> False)"

text \<open>
  \<open>os.listdir(d)\<close>: the names \<open>n\<close> without a slash such that \<open>d/n\<close> is an entry. It
  raises when \<open>d\<close> does not exist or is a file.
\<close>

definition listdir :: "filesystem \<Rightarrow> str \<Rightarrow> str + str list" where
  "listdir disk d =
     (case map_of disk d of
        None \<Rightarrow> Inl (oserror ENOENT d)
      | Some (File c) \<Rightarrow> Inl (oserror ENOTDIR d)
      | Some Dir \<Rightarrow>
          Inr [drop (length d + 1) p. (p, n) \<leftarrow> disk,
                 take (length d + 1) p = d @ ''/'',
                 drop (length d + 1) p \<noteq> [],
                 CHR ''/'' \<notin> set (drop (length d + 1) p)])"

text \<open>
  \<open>open(path, "rb").read()\<close>. Both callers open a path only after \<open>os.path.exists\<close> or
  \<open>os.path.isfile\<close> has answered for it.
\<close>

definition open_read_bytes :: "filesystem \<Rightarrow> str \<Rightarrow> str + str" where
  "open_read_bytes disk p =
     (case map_of disk p of
        None \<Rightarrow> Inl (oserror ENOENT p)
      | Some Dir \<Rightarrow> Inl (oserror EISDIR p)
      | Some (File d) \<Rightarrow> Inr d)"

text \<open>
  \<open>open(path, "r", encoding="utf-8").read()\<close>: text mode reads a carriage return, with
  the line feed that follows it if there is one, as one line feed.
\<close>

fun universal_newlines :: "str \<Rightarrow> str" where
  "universal_newlines [] = []"
| "universal_newlines [c] = (if c = CHR 0x0D then [CHR 0x0A] else [c])"
| "universal_newlines (c # d # cs) =
     (if c = CHR 0x0D \<and> d = CHR 0x0A then CHR 0x0A # universal_newlines cs
      else if c = CHR 0x0D then CHR 0x0A # universal_newlines (d # cs)
      else c # universal_newlines (d # cs))"

definition open_read_text :: "filesystem \<Rightarrow> str \<Rightarrow> str + str" where
  "open_read_text disk p =
     (case open_read_bytes disk p of Inl e \<Rightarrow> Inl e | Inr d \<Rightarrow> Inr (universal_newlines d))"

text \<open>
  \<open>open(path, "w", encoding="utf-8").write(text)\<close>, for a path whose parent directory
  exists (the one caller opens a path in the directory it has just created). A path with a
  NUL character is refused before the system call. The system call refuses a path of more
  than 4095 bytes, a path whose last component is empty, \<open>.\<close> or \<open>..\<close> or that is a
  directory, and a last component of more than 255 bytes. Otherwise the file is created or
  replaced; on POSIX the text is written as it is.
\<close>

definition open_write :: "filesystem \<Rightarrow> str \<Rightarrow> str \<Rightarrow> str + filesystem" where
  "open_write disk p text =
     (if CHR 0x00 \<in> set p then Inl ''embedded null byte''
      else if utf8_length p > 4095 then Inl (oserror ENAMETOOLONG p)
      else if basename p \<in> {'''', ''.'', ''..''} \<or> map_of disk p = Some Dir
        then Inl (oserror EISDIR p)
      else if utf8_length (basename p) > 255 then Inl (oserror ENAMETOOLONG p)
      else Inr (AList.update p (File text) disk))"

subsection \<open>Remote account and object storage\<close>

text \<open>
  A photo of the remote collection. \<open>attrs\<close> holds the attributes present on the object
  (\<open>getattr(photo, a, None)\<close> is a lookup). \<open>download\<close> is the result of
  \<open>photo.download()\<close>; \<open>download_to\<close> is the result of
  \<open>photo.download(download_dir=d)\<close>: the path it returns, if any, and the files
  it leaves on disk.
\<close>

record downloaded =
  as_bytes :: "str option"
  content :: "str option"
  read :: "str option"
  getvalue :: "str option"
  data_item :: "str option"

record photo =
  attrs :: "(str \<times> str) list"
  download :: "str + downloaded"
  download_to :: "str \<Rightarrow> str + (str option \<times> (str \<times> str) list)"

text \<open>The handle returned by \<open>PyiCloudService(...)\<close>.\<close>

record api =
  requires_2fa :: bool
  requires_2sa :: bool
  validate_2fa_code :: "str \<Rightarrow> bool"
  photos_all :: "str + photo list"

record s3_client =
  region_name :: str
  endpoint_url :: "str option"
  aws_access_key_id :: "str option"
  aws_secret_access_key :: "str option"
  path_style :: bool

record s3_object =
  Key :: "str option"

record list_params =
  Bucket :: str
  Prefix :: str
  ContinuationToken :: "str option"

record list_response =
  Contents :: "s3_object list option"
  IsTruncated :: bool
  NextContinuationToken :: "str option"

text \<open>
  Everything the program calls but does not define: the process environment, the JWT
  check, the remote login, the storage service, the UUID and temporary-name generators,
  the clock and the MIME table.
\<close>

record ext =
  environ :: "str \<rightharpoonup> str"
  jwt_decode :: "str \<Rightarrow> str \<Rightarrow> bool"
  PyiCloudService :: "str \<Rightarrow> str \<Rightarrow> str \<Rightarrow> filesystem \<Rightarrow> str + (api \<times> filesystem)"
  list_objects_v2 :: "s3_client \<Rightarrow> list_params \<Rightarrow> str + list_response"
  put_object :: "s3_client \<Rightarrow> str \<Rightarrow> str \<Rightarrow> str \<Rightarrow> str \<Rightarrow> str option"
  guess_type :: "str \<Rightarrow> str option"
  uuid4_hex :: "nat \<Rightarrow> str"
  mkdtemp_name :: "str \<Rightarrow> nat \<Rightarrow> str"
  time_time :: real

subsection \<open>Program state\<close>

text \<open>
  The trace records the remote login, each code validation and each entry into
  \<open>perform_sync\<close>, in order.
\<close>

datatype event = EvLogin str str str | EvValidate str | EvSync "int option"

record world =
  pending_sessions :: "str \<rightharpoonup> PendingSession"
  fs :: filesystem
  uuid_calls :: nat
  mkdtemp_calls :: nat
  trace :: "event list"

definition uuid4 :: "ext \<Rightarrow> world \<Rightarrow> str \<times> world" where
  "uuid4 x w = (uuid4_hex x (uuid_calls w), w\<lparr>uuid_calls := Suc (uuid_calls w)\<rparr>)"

text \<open>
  \<open>tempfile.mkdtemp\<close> creates a directory under a name that does not exist yet; the
  model takes the next name of the generator.
\<close>

definition mkdtemp :: "ext \<Rightarrow> str \<Rightarrow> world \<Rightarrow> str \<times> world" where
  "mkdtemp x prefix w =
     (let d = mkdtemp_name x prefix (mkdtemp_calls w)
      in (d, w\<lparr>fs := fs w @ [(d, Dir)], mkdtemp_calls := Suc (mkdtemp_calls w)\<rparr>))"

section \<open>Token check and storage client (lines 48 to 85)\<close>

definition verify_token :: "ext \<Rightarrow> str option \<Rightarrow> error option" where
  "verify_token x auth_header =
     (case auth_header of
        None \<Rightarrow> Some (HTTPException 401 ''Missing bearer token'')
      | Some h \<Rightarrow>
          if h = [] \<or> take 7 h \<noteq> ''Bearer '' then Some (HTTPException 401 ''Missing bearer token'')
          else (case environ x ''WORKER_JWT_SECRET'' of
                  None \<Rightarrow> Some (HTTPException 500 ''WORKER_JWT_SECRET not configured'')
                | Some secret \<Rightarrow>
                    if secret = [] then Some (HTTPException 500 ''WORKER_JWT_SECRET not configured'')
                    else if jwt_decode x (drop 7 h) secret then None
                    else Some (HTTPException 401 ''Invalid token'')))"

definition get_s3_client :: "ext \<Rightarrow> error + (s3_client \<times> str)" where
  "get_s3_client x =
     (if \<not> truthy (environ x ''PHOTO_BUCKET'') then Inl (HTTPException 500 ''PHOTO_BUCKET not configured'')
      else Inr (\<lparr>region_name = (case environ x ''S3_REGION'' of None \<Rightarrow> ''auto'' | Some r \<Rightarrow> r),
                 endpoint_url = environ x ''S3_ENDPOINT'',
                 aws_access_key_id = environ x ''S3_ACCESS_KEY_ID'',
                 aws_secret_access_key = environ x ''S3_SECRET_ACCESS_KEY'',
                 path_style = (environ x ''S3_FORCE_PATH_STYLE'' = Some ''true'')\<rparr>,
                the (environ x ''PHOTO_BUCKET'')))"

section \<open>Existing-object lister (lines 88 to 108)\<close>

text \<open>
  The keys of one page: \<open>response.get("Contents", [])\<close>, keeping each truthy \<open>Key\<close>.
\<close>

definition page_keys :: "list_response \<Rightarrow> str set" where
  "page_keys response =
     set (concat (map (\<lambda>item. case Key item of None \<Rightarrow> [] | Some k \<Rightarrow> if k = [] then [] else [k])
                      (case Contents response of None \<Rightarrow> [] | Some items \<Rightarrow> items)))"

text \<open>
  The \<open>while True\<close> loop, with \<open>keys\<close> and \<open>continuation\<close> as its state. The loop
  has no bound of its own, so the result is optional: \<open>None\<close> is a run that never leaves
  the loop. An exception of the listing call escapes (\<open>Inl\<close>).
\<close>

partial_function (option) list_loop ::
  "ext \<Rightarrow> s3_client \<Rightarrow> str \<Rightarrow> str \<Rightarrow> str set \<Rightarrow> str option \<Rightarrow> (str + str set) option" where
  "list_loop x client bucket prefix keys continuation =
     (case list_objects_v2 x client
             \<lparr>Bucket = bucket, Prefix = prefix,
              ContinuationToken = (if truthy continuation then continuation else None)\<rparr> of
        Inl e \<Rightarrow> Some (Inl e)
      | Inr response \<Rightarrow>
          if IsTruncated response
          then list_loop x client bucket prefix (keys \<union> page_keys response)
                 (NextContinuationToken response)
          else Some (Inr (keys \<union> page_keys response)))"

declare list_loop.simps [code]

definition list_existing_keys :: "ext \<Rightarrow> s3_client \<Rightarrow> str \<Rightarrow> str \<Rightarrow> (str + str set) option" where
  "list_existing_keys x client bucket prefix = list_loop x client bucket prefix {} None"

definition ensure_photo_prefix :: "ext \<Rightarrow> str" where
  "ensure_photo_prefix x =
     (let prefix = (case environ x ''PHOTO_PREFIX'' of None \<Rightarrow> ''photos/'' | Some p \<Rightarrow> p)
      in if prefix \<noteq> [] \<and> last prefix = CHR ''/'' then prefix else prefix @ ''/'')"

section \<open>Credential cache directory (lines 116 to 143)\<close>

definition create_session_dir :: "ext \<Rightarrow> SessionPayload option \<Rightarrow> world \<Rightarrow> (str + str) \<times> world" where
  "create_session_dir x session w =
     (let (dir, w1) = mkdtemp x ''icloud-session-'' w
      in case session of
           None \<Rightarrow> (Inr dir, w1)
         | Some s \<Rightarrow>
             (let name = basename (file_name s);
                  file_path = join dir name
              in case open_write (fs w1) file_path (data s) of
                   Inl e \<Rightarrow> (Inl e, w1)
                 | Inr fs' \<Rightarrow> (Inr dir, w1\<lparr>fs := fs'\<rparr>)))"

definition extract_session_payload :: "filesystem \<Rightarrow> str \<Rightarrow> str + SessionPayload option" where
  "extract_session_payload disk dir =
     (case listdir disk dir of
        Inl e \<Rightarrow> Inl e
      | Inr names \<Rightarrow>
          (let files = filter (\<lambda>f. isfile disk (join dir f)) names
           in case files of
                [] \<Rightarrow> Inr None
              | name # _ \<Rightarrow>
                  (case open_read_text disk (join dir name) of
                     Inl e \<Rightarrow> Inl e
                   | Inr text \<Rightarrow> Inr (Some \<lparr>file_name = name, data = text\<rparr>))))"

section \<open>Identifier and filename of a photo (lines 146 to 160)\<close>

text \<open>The first attribute of the list whose value is truthy.\<close>

fun first_attr :: "photo \<Rightarrow> str list \<Rightarrow> str option" where
  "first_attr p [] = None"
| "first_attr p (a # as) =
     (let v = map_of (attrs p) a in if truthy v then v else first_attr p as)"

definition get_photo_identifier :: "photo \<Rightarrow> str option" where
  "get_photo_identifier p = first_attr p [''id'', ''asset_id'', ''record_name'', ''recordName'']"

definition get_photo_filename :: "ext \<Rightarrow> photo \<Rightarrow> world \<Rightarrow> str \<times> world" where
  "get_photo_filename x p w =
     (case first_attr p [''filename'', ''original_filename'', ''file_name'', ''name''] of
        Some v \<Rightarrow> (v, w)
      | None \<Rightarrow>
          (let identifier = get_photo_identifier p
           in if truthy identifier then (the identifier @ ''.jpg'', w)
              else (let (u, w') = uuid4 x w in (u @ ''.jpg'', w'))))"

section \<open>Item fetcher and upload (lines 163 to 202)\<close>

text \<open>
  The files that \<open>photo.download(download_dir=d)\<close> leaves on disk; a file does not
  replace a directory.
\<close>

definition write_all :: "(str \<times> str) list \<Rightarrow> filesystem \<Rightarrow> filesystem" where
  "write_all written disk =
     fold (\<lambda>(p, d) acc. if map_of acc p = Some Dir then acc else AList.update p (File d) acc)
       written disk"

text \<open>
  The five shapes of a download result that already hold the bytes, tried in the order of
  lines 166 to 179.
\<close>

definition held_bytes :: "downloaded \<Rightarrow> str option" where
  "held_bytes d =
     (if as_bytes d \<noteq> None then as_bytes d
      else if content d \<noteq> None then content d
      else if read d \<noteq> None then read d
      else if getvalue d \<noteq> None then getvalue d
      else data_item d)"

definition download_photo_bytes :: "ext \<Rightarrow> photo \<Rightarrow> world \<Rightarrow> (str + str) \<times> world" where
  "download_photo_bytes x p w =
     (case download p of
        Inl e \<Rightarrow> (Inl e, w)
      | Inr d \<Rightarrow>
          (case held_bytes d of
             Some b \<Rightarrow> (Inr b, w)
           | None \<Rightarrow>
               (let (temp_dir, w1) = mkdtemp x ''icloud-photo-'' w
                in case download_to p temp_dir of
                     Inl e \<Rightarrow> (Inl e, w1)
                   | Inr (returned, written) \<Rightarrow>
                       (let w2 = w1\<lparr>fs := write_all written (fs w1)\<rparr>;
                            (file_path, w3) =
                               (if truthy returned then (returned, w2)
                                else (let (name, w') = get_photo_filename x p w2;
                                          fallback = join temp_dir name
                                      in (if exists (fs w') fallback then Some fallback else None, w')))
                        in if \<not> truthy file_path \<or> \<not> exists (fs w3) (the file_path)
                           then (Inl ''Failed to download photo'', w3)
                           else (case open_read_bytes (fs w3) (the file_path) of
                                   Inl e \<Rightarrow> (Inl e, w3)
                                 | Inr b \<Rightarrow> (Inr b, w3))))))"

text \<open>\<open>upload_photo\<close> returns the text of the exception raised by \<open>put_object\<close>, if any.\<close>

definition upload_photo :: "ext \<Rightarrow> s3_client \<Rightarrow> str \<Rightarrow> str \<Rightarrow> str \<Rightarrow> str option" where
  "upload_photo x client bucket key body =
     (let content_type = guess_type x key
      in put_object x client bucket key body
           (if truthy content_type then the content_type else ''application/octet-stream''))"

section \<open>Sync engine (lines 205 to 243)\<close>

text \<open>
  \<open>str.isalnum\<close> on one character: letters and decimal, digit or numeric characters of
  Unicode, here for the code points up to U+00FF.
\<close>

definition isalnum :: "char \<Rightarrow> bool" where
  "isalnum ch =
     (let n = (of_char ch :: nat)
      in (0x30 \<le> n \<and> n \<le> 0x39) \<or> (0x41 \<le> n \<and> n \<le> 0x5A) \<or> (0x61 \<le> n \<and> n \<le> 0x7A)
         \<or> n = 0xAA \<or> n = 0xB2 \<or> n = 0xB3 \<or> n = 0xB5 \<or> n = 0xB9 \<or> n = 0xBA
         \<or> (0xBC \<le> n \<and> n \<le> 0xBE) \<or> (0xC0 \<le> n \<and> n \<le> 0xD6)
         \<or> (0xD8 \<le> n \<and> n \<le> 0xF6) \<or> (0xF8 \<le> n \<and> n \<le> 0xFF))"

text \<open>Lines 222 to 224: the characters of \<open>identifier or ""\<close> that pass the test.\<close>

definition safe_identifier :: "str option \<Rightarrow> str" where
  "safe_identifier identifier =
     filter (\<lambda>ch. isalnum ch \<or> ch \<in> {CHR ''-'', CHR ''_''})
       (if truthy identifier then the identifier else [])"

text \<open>Lines 226 to 229.\<close>

definition destination_key :: "str \<Rightarrow> str option \<Rightarrow> str \<Rightarrow> str" where
  "destination_key prefix identifier filename =
     (if safe_identifier identifier \<noteq> []
      then prefix @ safe_identifier identifier @ ''-'' @ filename
      else prefix @ filename)"

text \<open>
  The state of the loop: the three results and the key set. \<open>journal\<close> is a record of the
  run kept beside them: one entry for each execution of the loop body, with the photo, the
  filename and key computed for it, the remote calls made for it and its outcome.
\<close>

datatype call = Download | Put str

datatype outcome = Skipped | Imported | Failed str

record entry =
  item :: photo
  filename :: str
  dkey :: str
  calls :: "call list"
  outcome :: outcome

record run =
  existing :: "str set"
  imported :: int
  skipped :: int
  errors :: "str list"
  journal :: "entry list"

text \<open>The body of the loop for one photo (lines 220 to 241).\<close>

definition sync_item ::
  "ext \<Rightarrow> s3_client \<Rightarrow> str \<Rightarrow> str \<Rightarrow> photo \<Rightarrow> run \<Rightarrow> world \<Rightarrow> run \<times> world" where
  "sync_item x client bucket prefix p r w =
     (let (fname, w1) = get_photo_filename x p w;
          identifier = get_photo_identifier p;
          key = destination_key prefix identifier fname;
          e = \<lparr>item = p, filename = fname, dkey = key, calls = [], outcome = Skipped\<rparr>
      in if key \<in> existing r
         then (r\<lparr>skipped := skipped r + 1, journal := journal r @ [e]\<rparr>, w1)
         else (case download_photo_bytes x p w1 of
                 (Inl exc, w2) \<Rightarrow>
                   (r\<lparr>errors := errors r @ [''Failed '' @ fname @ '': '' @ exc],
                      journal := journal r @ [e\<lparr>calls := [Download], outcome := Failed exc\<rparr>]\<rparr>, w2)
               | (Inr body, w2) \<Rightarrow>
                   (case upload_photo x client bucket key body of
                      Some exc \<Rightarrow>
                        (r\<lparr>errors := errors r @ [''Failed '' @ fname @ '': '' @ exc],
                           journal := journal r @ [e\<lparr>calls := [Download, Put key], outcome := Failed exc\<rparr>]\<rparr>, w2)
                    | None \<Rightarrow>
                        (r\<lparr>existing := insert key (existing r), imported := imported r + 1,
                           journal := journal r @ [e\<lparr>calls := [Download, Put key], outcome := Imported\<rparr>]\<rparr>, w2))))"

text \<open>The test of line 217: \<open>limit is not None and index >= limit\<close>.\<close>

definition limit_reached :: "int option \<Rightarrow> nat \<Rightarrow> bool" where
  "limit_reached limit index = (case limit of None \<Rightarrow> False | Some n \<Rightarrow> int index \<ge> n)"

text \<open>The \<open>for index, photo in enumerate(photos)\<close> loop with its \<open>break\<close>.\<close>

fun sync_loop ::
  "ext \<Rightarrow> s3_client \<Rightarrow> str \<Rightarrow> str \<Rightarrow> int option \<Rightarrow> nat \<Rightarrow> photo list \<Rightarrow> run \<Rightarrow> world \<Rightarrow> run \<times> world" where
  "sync_loop x client bucket prefix limit index [] r w = (r, w)"
| "sync_loop x client bucket prefix limit index (p # photos) r w =
     (if limit_reached limit index then (r, w)
      else (let (r', w') = sync_item x client bucket prefix p r w
            in sync_loop x client bucket prefix limit (Suc index) photos r' w'))"

definition perform_sync :: "ext \<Rightarrow> api \<Rightarrow> int option \<Rightarrow> world \<Rightarrow> ((error + run) \<times> world) option" where
  "perform_sync x api limit w =
     (let w1 = w\<lparr>trace := trace w @ [EvSync limit]\<rparr>
      in case get_s3_client x of
           Inl e \<Rightarrow> Some (Inl e, w1)
         | Inr (client, bucket) \<Rightarrow>
             (let prefix = ensure_photo_prefix x
              in case list_existing_keys x client bucket prefix of
                   None \<Rightarrow> None
                 | Some (Inl e) \<Rightarrow> Some (Inl (Uncaught e), w1)
                 | Some (Inr keys) \<Rightarrow>
                     (case photos_all api of
                        Inl e \<Rightarrow> Some (Inl (Uncaught e), w1)
                      | Inr photos \<Rightarrow>
                          (let (r, w2) = sync_loop x client bucket prefix limit 0 photos
                                   \<lparr>existing = keys, imported = 0, skipped = 0, errors = [], journal = []\<rparr> w1
                           in Some (Inr r, w2)))))"

section \<open>Endpoints (lines 246 to 308)\<close>

text \<open>
  The two response bodies: \<open>{"status": "needs_2fa", "session_id": ...}\<close> and
  \<open>{"status": "ok", "imported": ..., "skipped": ..., "errors": ..., "session": ...}\<close>.
\<close>

datatype reply = Needs2fa str | Ok int int "str list" "SessionPayload option"

fun status :: "reply \<Rightarrow> str" where
  "status (Needs2fa sid) = ''needs_2fa''"
| "status (Ok i s e p) = ''ok''"

text \<open>Lines 267 to 276 and 297 to 298: the sync run, then the cache file is read back.\<close>

definition sync_and_extract ::
  "ext \<Rightarrow> api \<Rightarrow> int option \<Rightarrow> str \<Rightarrow> world \<Rightarrow> ((error + reply) \<times> world) option" where
  "sync_and_extract x api limit dir w =
     (case perform_sync x api limit w of
        None \<Rightarrow> None
      | Some (Inl e, w1) \<Rightarrow> Some (Inl e, w1)
      | Some (Inr r, w1) \<Rightarrow>
          (case extract_session_payload (fs w1) dir of
             Inl e \<Rightarrow> Some (Inl (Uncaught e), w1)
           | Inr session_payload \<Rightarrow>
               Some (Inr (Ok (imported r) (skipped r) (errors r) session_payload), w1)))"

definition sync_photos ::
  "ext \<Rightarrow> SyncRequest \<Rightarrow> str option \<Rightarrow> world \<Rightarrow> ((error + reply) \<times> world) option" where
  "sync_photos x request authorization w =
     (case verify_token x authorization of
        Some e \<Rightarrow> Some (Inl e, w)
      | None \<Rightarrow>
          (case create_session_dir x (req_session request) w of
             (Inl e, w1) \<Rightarrow> Some (Inl (Uncaught e), w1)
           | (Inr dir, w1) \<Rightarrow>
               (let w2 = w1\<lparr>trace := trace w1 @
                            [EvLogin (req_apple_id request) (req_app_password request) dir]\<rparr>
                in case PyiCloudService x (req_apple_id request) (req_app_password request)
                          dir (fs w2) of
                     Inl e \<Rightarrow> Some (Inl (Uncaught e), w2)
                   | Inr (api, fs') \<Rightarrow>
                       (let w3 = w2\<lparr>fs := fs'\<rparr>
                        in if requires_2fa api \<or> requires_2sa api
                           then (let (sid, w4) = uuid4 x w3
                                 in Some (Inr (Needs2fa sid),
                                      w4\<lparr>pending_sessions := (pending_sessions w4)(sid \<mapsto>
                                           \<lparr>apple_id = req_apple_id request,
                                            app_password = req_app_password request,
                                            session_dir = dir,
                                            created_at = time_time x\<rparr>)\<rparr>))
                           else sync_and_extract x api (req_limit request) dir w3))))"

definition sync_with_2fa ::
  "ext \<Rightarrow> TwoFactorRequest \<Rightarrow> str option \<Rightarrow> world \<Rightarrow> ((error + reply) \<times> world) option" where
  "sync_with_2fa x payload authorization w =
     (case verify_token x authorization of
        Some e \<Rightarrow> Some (Inl e, w)
      | None \<Rightarrow>
          (case pending_sessions w (session_id payload) of
             None \<Rightarrow> Some (Inl (HTTPException 404 ''Session not found''), w)
           | Some pending \<Rightarrow>
               (let w1 = w\<lparr>trace := trace w @
                            [EvLogin (apple_id pending) (app_password pending) (session_dir pending)]\<rparr>
                in case PyiCloudService x (apple_id pending) (app_password pending)
                          (session_dir pending) (fs w1) of
                     Inl e \<Rightarrow> Some (Inl (Uncaught e), w1)
                   | Inr (api, fs') \<Rightarrow>
                       (let w2 = w1\<lparr>fs := fs'\<rparr>;
                            w3 = (if requires_2fa api
                                  then w2\<lparr>trace := trace w2 @ [EvValidate (code payload)]\<rparr> else w2)
                        in if requires_2fa api \<and> \<not> validate_2fa_code api (code payload)
                           then Some (Inl (HTTPException 401 ''Invalid 2FA code''), w3)
                           else (case sync_and_extract x api None (session_dir pending) w3 of
                                   None \<Rightarrow> None
                                 | Some (Inl e, w4) \<Rightarrow> Some (Inl e, w4)
                                 | Some (Inr rep, w4) \<Rightarrow>
                                     Some (Inr rep, w4\<lparr>pending_sessions :=
                                             (pending_sessions w4)(session_id payload := None)\<rparr>))))))"

section \<open>Notions used in the statements\<close>

text \<open>
  The definitions of this section are not part of the program. They name what the
  statements below talk about.
\<close>

text \<open>The first \<open>n\<close> items of a collection, or all of it when no limit is given.\<close>

definition first_items :: "int option \<Rightarrow> 'a list \<Rightarrow> 'a list" where
  "first_items limit xs = (case limit of None \<Rightarrow> xs | Some n \<Rightarrow> take (nat n) xs)"

text \<open>The photos the loop still visits when it stands at position \<open>index\<close>.\<close>

definition remaining :: "int option \<Rightarrow> nat \<Rightarrow> photo list \<Rightarrow> photo list" where
  "remaining limit index photos =
     (case limit of None \<Rightarrow> photos | Some n \<Rightarrow> take (nat (n - int index)) photos)"

text \<open>The keys of the entries that were uploaded, in order.\<close>

definition uploaded_keys :: "entry list \<Rightarrow> str list" where
  "uploaded_keys es = map dkey (filter (\<lambda>e. outcome e = Imported) es)"

fun is_failed :: "entry \<Rightarrow> bool" where
  "is_failed e = (case outcome e of Failed exc \<Rightarrow> True | _ \<Rightarrow> False)"

text \<open>The message a failed entry leaves in the error list.\<close>

fun error_message :: "entry \<Rightarrow> str list" where
  "error_message e = (case outcome e of Failed exc \<Rightarrow> [''Failed '' @ filename e @ '': '' @ exc] | _ \<Rightarrow> [])"

text \<open>
  A journal is consistent with a key set \<open>K\<close> when each entry whose key is already known
  (in \<open>K\<close>, or uploaded by an earlier entry) is skipped without a remote call, and every
  other entry is not skipped and calls nothing but its own download and upload.
\<close>

fun consistent :: "str set \<Rightarrow> entry list \<Rightarrow> bool" where
  "consistent K [] = True"
| "consistent K (e # es) =
     ((if dkey e \<in> K then outcome e = Skipped \<and> calls e = []
       else outcome e \<noteq> Skipped \<and> set (calls e) \<subseteq> {Download, Put (dkey e)}
            \<and> (outcome e = Imported \<longrightarrow> calls e = [Download, Put (dkey e)]))
      \<and> consistent (if outcome e = Imported then insert (dkey e) K else K) es)"

text \<open>
  A storage state that serves the objects under the prefix as the given sequence of pages:
  the request with cursor \<open>token\<close> answers with the first page, every page but the last is
  truncated and supplies a non-empty cursor, and the request with that cursor serves the
  rest in the same way.
\<close>

fun paged :: "ext \<Rightarrow> s3_client \<Rightarrow> str \<Rightarrow> str \<Rightarrow> str option \<Rightarrow> s3_object list list \<Rightarrow> bool" where
  "paged x client bucket prefix token [] = False"
| "paged x client bucket prefix token (page # rest) =
     (case list_objects_v2 x client \<lparr>Bucket = bucket, Prefix = prefix, ContinuationToken = token\<rparr> of
        Inl e \<Rightarrow> False
      | Inr response \<Rightarrow>
          (case Contents response of None \<Rightarrow> [] | Some items \<Rightarrow> items) = page
          \<and> (if rest = [] then \<not> IsTruncated response
              else IsTruncated response \<and> truthy (NextContinuationToken response)
                   \<and> paged x client bucket prefix (NextContinuationToken response) rest))"

text \<open>The keys of a list of stored objects (a stored object has a non-empty key).\<close>

definition keys_of :: "s3_object list \<Rightarrow> str set" where
  "keys_of objects = {k. k \<noteq> [] \<and> (\<exists>obj \<in> set objects. Key obj = Some k)}"

text \<open>
  Every key of the session table is a value that the UUID generator has issued. The empty
  table has this property and both endpoints keep it.
\<close>

definition issued :: "ext \<Rightarrow> world \<Rightarrow> bool" where
  "issued x w = (dom (pending_sessions w) \<subseteq> uuid4_hex x ` {..<uuid_calls w})"

text \<open>The character class \<open>[A-Za-z0-9_-]\<close>, and the ASCII range.\<close>

definition in_range :: "char \<Rightarrow> char \<Rightarrow> char \<Rightarrow> bool" where
  "in_range lo hi ch = ((of_char lo :: nat) \<le> of_char ch \<and> (of_char ch :: nat) \<le> of_char hi)"

definition ascii_key_char :: "char \<Rightarrow> bool" where
  "ascii_key_char ch =
     (in_range CHR ''A'' CHR ''Z'' ch \<or> in_range CHR ''a'' CHR ''z'' ch \<or> in_range CHR ''0'' CHR ''9'' ch
      \<or> ch = CHR ''_'' \<or> ch = CHR ''-'')"

definition is_ascii :: "char \<Rightarrow> bool" where
  "is_ascii ch = ((of_char ch :: nat) < 128)"

section \<open>A sample installation\<close>

text \<open>
  Concrete collaborators on which the statements are exercised: a bucket \<open>bucket\<close> whose
  two objects are listed on two pages, three accounts (one that asks for a two-factor code,
  one that asks for two-step verification only, one that asks for nothing), and a
  collection of four photos, the second a duplicate of the first and the last one failing
  to download. The storage refuses the key \<open>photos/locked.png\<close>.
\<close>

definition demo_bytes :: downloaded where
  "demo_bytes = \<lparr>as_bytes = Some ''JPEG'', content = None, read = None, getvalue = None, data_item = None\<rparr>"

definition photo_a1 :: photo where
  "photo_a1 = \<lparr>attrs = [(''id'', ''a1''), (''name'', ''p1.jpg'')], download = Inr demo_bytes,
                download_to = (\<lambda>d. Inl ''not used'')\<rparr>"

definition photo_p2 :: photo where
  "photo_p2 = \<lparr>attrs = [(''name'', ''p2.png'')], download = Inr demo_bytes,
                download_to = (\<lambda>d. Inl ''not used'')\<rparr>"

definition photo_bad :: photo where
  "photo_bad = \<lparr>attrs = [(''id'', ''b+7''), (''filename'', ''p3.jpg'')], download = Inl ''timed out'',
                 download_to = (\<lambda>d. Inl ''not used'')\<rparr>"


definition demo_photos :: "photo list" where
  "demo_photos = [photo_a1, photo_a1, photo_p2, photo_bad]"

definition demo_api :: "bool \<Rightarrow> bool \<Rightarrow> api" where
  "demo_api fa sa = \<lparr>requires_2fa = fa, requires_2sa = sa,
                      validate_2fa_code = (\<lambda>c. c = ''123456''), photos_all = Inr demo_photos\<rparr>"

definition demo_client :: s3_client where
  "demo_client = \<lparr>region_name = ''auto'', endpoint_url = None, aws_access_key_id = None,
                   aws_secret_access_key = None, path_style = False\<rparr>"

definition demo_ext :: ext where
  "demo_ext =
     \<lparr>environ = [''PHOTO_BUCKET'' \<mapsto> ''bucket'', ''WORKER_JWT_SECRET'' \<mapsto> ''secret''],
      jwt_decode = (\<lambda>token secret. token = ''good''),
      PyiCloudService = (\<lambda>a p d disk.
         if a = ''fa@example.com'' then Inr (demo_api True True, disk)
         else if a = ''sa@example.com'' then Inr (demo_api False True, disk)
         else Inr (demo_api False False, disk)),
      list_objects_v2 = (\<lambda>client params.
         if ContinuationToken params = None
         then Inr \<lparr>Contents = Some [\<lparr>Key = Some ''photos/a1-p1.jpg''\<rparr>], IsTruncated = True,
                   NextContinuationToken = Some ''t1''\<rparr>
         else Inr \<lparr>Contents = Some [\<lparr>Key = Some ''photos/old.png''\<rparr>], IsTruncated = False,
                   NextContinuationToken = None\<rparr>),
      put_object = (\<lambda>client bucket key body ctype.
         if key = ''photos/locked.png'' then Some ''AccessDenied'' else None),
      guess_type = (\<lambda>key. None),
      uuid4_hex = (\<lambda>n. replicate (Suc n) CHR ''a''),
      mkdtemp_name = (\<lambda>pre n. ''/tmp/'' @ pre @ replicate (Suc n) CHR ''a''),
      time_time = 0\<rparr>"

definition demo_world :: world where
  "demo_world =
     \<lparr>pending_sessions =
        [''a'' \<mapsto> \<lparr>apple_id = ''fa@example.com'', app_password = ''pw'',
                   session_dir = ''/tmp/icloud-session-a'', created_at = 0\<rparr>,
         ''aa'' \<mapsto> \<lparr>apple_id = ''sa@example.com'', app_password = ''pw'',
                    session_dir = ''/tmp/icloud-session-aa'', created_at = 0\<rparr>],
      fs = [(''/tmp/icloud-session-a'', Dir), (''/tmp/icloud-session-aa'', Dir)],
      uuid_calls = 2, mkdtemp_calls = 2,
      trace = [EvLogin ''fa@example.com'' ''pw'' ''/tmp/icloud-session-a'',
               EvLogin ''sa@example.com'' ''pw'' ''/tmp/icloud-session-aa'']\<rparr>"

text \<open>
  \<open>demo_world\<close> is the state after two logins were parked. \<open>early_world\<close> is the state
  before the second of them, which \<open>sa_request\<close> asks for.
\<close>

definition early_world :: world where
  "early_world =
     \<lparr>pending_sessions =
        [''a'' \<mapsto> \<lparr>apple_id = ''fa@example.com'', app_password = ''pw'',
                   session_dir = ''/tmp/icloud-session-a'', created_at = 0\<rparr>],
      fs = [(''/tmp/icloud-session-a'', Dir)],
      uuid_calls = 1, mkdtemp_calls = 1,
      trace = [EvLogin ''fa@example.com'' ''pw'' ''/tmp/icloud-session-a'']\<rparr>"

definition sa_request :: SyncRequest where
  "sa_request = \<lparr>req_apple_id = ''sa@example.com'', req_app_password = ''pw'',
                  req_session = None, req_limit = None\<rparr>"



text \<open>The same installation with an empty bucket: the listing has no \<open>Contents\<close>.\<close>

definition empty_ext :: ext where
  "empty_ext = demo_ext\<lparr>list_objects_v2 := (\<lambda>client params.
     Inr \<lparr>Contents = None, IsTruncated = False, NextContinuationToken = None\<rparr>)\<rparr>"

section \<open>The state outside a sync run\<close>

text \<open>
  Resolving a filename, fetching a photo and the whole loop leave the session table and
  the trace alone, and never take back an issued UUID.
\<close>

lemma get_photo_filename_world:
  "get_photo_filename x p w = (fname, w1) \<Longrightarrow>
     pending_sessions w1 = pending_sessions w \<and> trace w1 = trace w \<and> fs w1 = fs w
     \<and> mkdtemp_calls w1 = mkdtemp_calls w \<and> uuid_calls w \<le> uuid_calls w1"
  by (auto simp: get_photo_filename_def uuid4_def Let_def split: option.splits if_splits)

lemma mkdtemp_world:
  "mkdtemp x pre w = (d, w1) \<Longrightarrow>
     pending_sessions w1 = pending_sessions w \<and> trace w1 = trace w \<and> uuid_calls w1 = uuid_calls w"
  by (auto simp: mkdtemp_def Let_def)

lemma download_photo_bytes_world:
  assumes "download_photo_bytes x p w = (res, w')"
  shows "pending_sessions w' = pending_sessions w \<and> trace w' = trace w \<and> uuid_calls w \<le> uuid_calls w'"
  using assms
  by (auto simp: download_photo_bytes_def Let_def mkdtemp_def split: sum.splits option.splits prod.splits if_splits
      dest!: get_photo_filename_world)

lemma sync_item_world:
  assumes "sync_item x client bucket prefix p r w = (r', w')"
  shows "pending_sessions w' = pending_sessions w \<and> trace w' = trace w \<and> uuid_calls w \<le> uuid_calls w'"
  using assms
  by (auto simp: sync_item_def Let_def split: sum.splits option.splits prod.splits if_splits
      dest!: get_photo_filename_world download_photo_bytes_world)

lemma sync_loop_step:
  "\<not> limit_reached limit index \<Longrightarrow> sync_item x client bucket prefix p r w = (r1, w1) \<Longrightarrow>
     sync_loop x client bucket prefix limit index (p # photos) r w =
     sync_loop x client bucket prefix limit (Suc index) photos r1 w1"
  by simp

lemma sync_loop_world:
  "sync_loop x client bucket prefix limit index photos r w = (r', w') \<Longrightarrow>
     pending_sessions w' = pending_sessions w \<and> trace w' = trace w \<and> uuid_calls w \<le> uuid_calls w'"
proof (induction photos arbitrary: index r w)
  case Nil
  then show ?case by simp
next
  case (Cons p photos)
  show ?case
  proof (cases "limit_reached limit index")
    case True
    with Cons.prems show ?thesis by simp
  next
    case False
    obtain r1 w1 where step: "sync_item x client bucket prefix p r w = (r1, w1)"
      by (cases "sync_item x client bucket prefix p r w")
    from Cons.prems sync_loop_step [OF False step]
    have rest: "sync_loop x client bucket prefix limit (Suc index) photos r1 w1 = (r', w')"
      by simp
    from Cons.IH [OF rest] sync_item_world [OF step] show ?thesis by simp
  qed
qed

lemma perform_sync_world:
  assumes "perform_sync x api limit w = Some (res, w')"
  shows "pending_sessions w' = pending_sessions w \<and> trace w' = trace w @ [EvSync limit]
         \<and> uuid_calls w \<le> uuid_calls w'"
  using assms
  by (auto simp: perform_sync_def Let_def split: sum.splits option.splits prod.splits
      dest!: sync_loop_world)

lemma sync_and_extract_world:
  assumes "sync_and_extract x api limit dir w = Some (res, w')"
  shows "pending_sessions w' = pending_sessions w \<and> trace w' = trace w @ [EvSync limit]
         \<and> uuid_calls w \<le> uuid_calls w'"
  using assms
  by (auto simp: sync_and_extract_def split: sum.splits option.splits prod.splits
      dest!: perform_sync_world)

text \<open>A directory that exists before a sync run exists after it.\<close>

lemma write_all_keeps_dir:
  "map_of disk p = Some Dir \<Longrightarrow> map_of (write_all written disk) p = Some Dir"
proof (induction written arbitrary: disk)
  case Nil
  then show ?case by (simp add: write_all_def)
next
  case (Cons entry written)
  obtain q d where entry: "entry = (q, d)" by (cases entry)
  let ?disk = "if map_of disk q = Some Dir then disk else AList.update q (File d) disk"
  have "map_of ?disk p = Some Dir"
    using Cons.prems by (auto simp: update_conv')
  from Cons.IH [OF this] entry show ?case by (simp add: write_all_def)
qed

lemma download_photo_bytes_keeps_dir:
  assumes "download_photo_bytes x p w = (res, w')" and "map_of (fs w) d = Some Dir"
  shows "map_of (fs w') d = Some Dir"
  using assms
  by (auto simp: download_photo_bytes_def Let_def mkdtemp_def write_all_keeps_dir
      split: sum.splits option.splits prod.splits if_splits
      dest!: get_photo_filename_world)

lemma sync_item_keeps_dir:
  assumes "sync_item x client bucket prefix p r w = (r', w')" and "map_of (fs w) d = Some Dir"
  shows "map_of (fs w') d = Some Dir"
proof -
  obtain fname w1 where f: "get_photo_filename x p w = (fname, w1)"
    by (cases "get_photo_filename x p w")
  from get_photo_filename_world [OF f] assms(2) have d1: "map_of (fs w1) d = Some Dir" by simp
  show ?thesis
  proof (cases "destination_key prefix (get_photo_identifier p) fname \<in> existing r")
    case True
    with assms(1) f d1 show ?thesis by (auto simp: sync_item_def Let_def)
  next
    case False
    obtain res w2 where dl: "download_photo_bytes x p w1 = (res, w2)"
      by (cases "download_photo_bytes x p w1")
    from download_photo_bytes_keeps_dir [OF dl d1] have "map_of (fs w2) d = Some Dir" .
    moreover from assms(1) f False dl have "w' = w2"
      by (auto simp: sync_item_def Let_def split: sum.splits option.splits)
    ultimately show ?thesis by simp
  qed
qed

lemma sync_loop_keeps_dir:
  "sync_loop x client bucket prefix limit index photos r w = (r', w') \<Longrightarrow>
     map_of (fs w) d = Some Dir \<Longrightarrow> map_of (fs w') d = Some Dir"
proof (induction photos arbitrary: index r w)
  case Nil
  then show ?case by simp
next
  case (Cons p photos)
  show ?case
  proof (cases "limit_reached limit index")
    case True
    with Cons.prems show ?thesis by simp
  next
    case False
    obtain r1 w1 where step: "sync_item x client bucket prefix p r w = (r1, w1)"
      by (cases "sync_item x client bucket prefix p r w")
    from Cons.prems(1) sync_loop_step [OF False step]
    have rest: "sync_loop x client bucket prefix limit (Suc index) photos r1 w1 = (r', w')"
      by simp
    from sync_item_keeps_dir [OF step Cons.prems(2)] have "map_of (fs w1) d = Some Dir" .
    from Cons.IH [OF rest this] show ?thesis .
  qed
qed

lemma perform_sync_keeps_dir:
  assumes "perform_sync x api limit w = Some (res, w')" and "map_of (fs w) d = Some Dir"
  shows "map_of (fs w') d = Some Dir"
  using assms
  by (auto simp: perform_sync_def Let_def split: sum.splits option.splits prod.splits
      dest!: sync_loop_keeps_dir [where d = d])

section \<open>One iteration and the whole loop\<close>

lemma sync_item_effect:
  assumes "sync_item x client bucket prefix p r w = (r', w')"
  shows "\<exists>e. journal r' = journal r @ [e] \<and> item e = p
           \<and> filename e = fst (get_photo_filename x p w)
           \<and> dkey e = destination_key prefix (get_photo_identifier p) (filename e)
           \<and> (if dkey e \<in> existing r
               then outcome e = Skipped \<and> calls e = [] \<and> existing r' = existing r
                    \<and> imported r' = imported r \<and> skipped r' = skipped r + 1 \<and> errors r' = errors r
               else (outcome e = Imported \<and> calls e = [Download, Put (dkey e)]
                     \<and> existing r' = insert (dkey e) (existing r)
                     \<and> imported r' = imported r + 1 \<and> skipped r' = skipped r \<and> errors r' = errors r)
                  \<or> (\<exists>exc. outcome e = Failed exc \<and> set (calls e) \<subseteq> {Download, Put (dkey e)}
                     \<and> existing r' = existing r \<and> imported r' = imported r \<and> skipped r' = skipped r
                     \<and> errors r' = errors r @ [''Failed '' @ filename e @ '': '' @ exc]))"
  using assms
  by (auto simp: sync_item_def Let_def split: sum.splits option.splits prod.splits if_splits)

lemma remaining_Nil: "remaining limit index [] = []"
  by (simp add: remaining_def split: option.splits)

lemma remaining_reached: "limit_reached limit index \<Longrightarrow> remaining limit index photos = []"
  by (auto simp: remaining_def limit_reached_def split: option.splits)

lemma remaining_Cons:
  "\<not> limit_reached limit index \<Longrightarrow>
     remaining limit index (p # photos) = p # remaining limit (Suc index) photos"
proof (cases limit)
  case None
  then show ?thesis by (simp add: remaining_def)
next
  case (Some n)
  assume "\<not> limit_reached limit index"
  with Some have "int index < n" by (simp add: limit_reached_def)
  then obtain k where k: "nat (n - int index) = Suc k" and k': "nat (n - int (Suc index)) = k"
    by (cases "nat (n - int index)") auto
  with Some show ?thesis by (simp add: remaining_def)
qed

lemma sync_loop_log:
  assumes "sync_loop x client bucket prefix limit index photos r w = (r', w')"
  shows "\<exists>es. journal r' = journal r @ es
           \<and> map item es = remaining limit index photos
           \<and> (\<forall>e \<in> set es. dkey e = destination_key prefix (get_photo_identifier (item e)) (filename e))
           \<and> imported r' = imported r + int (length (filter (\<lambda>e. outcome e = Imported) es))
           \<and> skipped r' = skipped r + int (length (filter (\<lambda>e. outcome e = Skipped) es))
           \<and> errors r' = errors r @ concat (map error_message es)
           \<and> existing r' = existing r \<union> set (uploaded_keys es)
           \<and> consistent (existing r) es"
  using assms
proof (induction photos arbitrary: index r w)
  case Nil
  then show ?case by (simp add: remaining_Nil uploaded_keys_def)
next
  case (Cons p photos)
  show ?case
  proof (cases "limit_reached limit index")
    case True
    with Cons.prems show ?thesis by (simp add: remaining_reached uploaded_keys_def)
  next
    case False
    obtain r1 w1 where step: "sync_item x client bucket prefix p r w = (r1, w1)"
      by (cases "sync_item x client bucket prefix p r w")
    from Cons.prems sync_loop_step [OF False step]
    have rest: "sync_loop x client bucket prefix limit (Suc index) photos r1 w1 = (r', w')"
      by simp
    from sync_item_effect [OF step] obtain e where e:
      "journal r1 = journal r @ [e]" "item e = p"
      "dkey e = destination_key prefix (get_photo_identifier p) (filename e)"
      "if dkey e \<in> existing r
       then outcome e = Skipped \<and> calls e = [] \<and> existing r1 = existing r
            \<and> imported r1 = imported r \<and> skipped r1 = skipped r + 1 \<and> errors r1 = errors r
       else (outcome e = Imported \<and> calls e = [Download, Put (dkey e)]
             \<and> existing r1 = insert (dkey e) (existing r)
             \<and> imported r1 = imported r + 1 \<and> skipped r1 = skipped r \<and> errors r1 = errors r)
          \<or> (\<exists>exc. outcome e = Failed exc \<and> set (calls e) \<subseteq> {Download, Put (dkey e)}
             \<and> existing r1 = existing r \<and> imported r1 = imported r \<and> skipped r1 = skipped r
             \<and> errors r1 = errors r @ [''Failed '' @ filename e @ '': '' @ exc])"
      by blast
    from Cons.IH [OF rest] obtain es where es:
      "journal r' = journal r1 @ es" "map item es = remaining limit (Suc index) photos"
      "\<forall>e \<in> set es. dkey e = destination_key prefix (get_photo_identifier (item e)) (filename e)"
      "imported r' = imported r1 + int (length (filter (\<lambda>e. outcome e = Imported) es))"
      "skipped r' = skipped r1 + int (length (filter (\<lambda>e. outcome e = Skipped) es))"
      "errors r' = errors r1 @ concat (map error_message es)"
      "existing r' = existing r1 \<union> set (uploaded_keys es)"
      "consistent (existing r1) es"
      by blast
    have 1: "journal r' = journal r @ (e # es)" using e(1) es(1) by simp
    have 2: "map item (e # es) = remaining limit index (p # photos)"
      using e(2) es(2) remaining_Cons [OF False] by simp
    have 3: "\<forall>a \<in> set (e # es). dkey a = destination_key prefix (get_photo_identifier (item a)) (filename a)"
      using e(2,3) es(3) by simp
    have 4: "imported r' = imported r + int (length (filter (\<lambda>e. outcome e = Imported) (e # es)))"
      using e(4) es(4) by (auto split: if_splits)
    have 5: "skipped r' = skipped r + int (length (filter (\<lambda>e. outcome e = Skipped) (e # es)))"
      using e(4) es(5) by (auto split: if_splits)
    have 6: "errors r' = errors r @ concat (map error_message (e # es))"
      using e(4) es(6) by (auto split: if_splits)
    have 7: "existing r' = existing r \<union> set (uploaded_keys (e # es))"
      using e(4) es(7) by (auto simp: uploaded_keys_def split: if_splits)
    have 8: "consistent (existing r) (e # es)"
      using e(4) es(8) by (auto split: if_splits)
    from 1 2 3 4 5 6 7 8 show ?thesis by blast
  qed
qed

lemma sync_loop_filenames:
  assumes "sync_loop x client bucket prefix limit index photos r w = (r', w')"
  shows "\<forall>e \<in> set (drop (length (journal r)) (journal r')).
           \<exists>w0. uuid_calls w \<le> uuid_calls w0 \<and> filename e = fst (get_photo_filename x (item e) w0)"
  using assms
proof (induction photos arbitrary: index r w)
  case Nil
  then show ?case by simp
next
  case (Cons p photos)
  show ?case
  proof (cases "limit_reached limit index")
    case True
    with Cons.prems show ?thesis by simp
  next
    case False
    obtain r1 w1 where step: "sync_item x client bucket prefix p r w = (r1, w1)"
      by (cases "sync_item x client bucket prefix p r w")
    from Cons.prems sync_loop_step [OF False step]
    have rest: "sync_loop x client bucket prefix limit (Suc index) photos r1 w1 = (r', w')"
      by simp
    from sync_item_effect [OF step] obtain e where e:
      "journal r1 = journal r @ [e]" "item e = p" "filename e = fst (get_photo_filename x p w)"
      by blast
    from sync_loop_log [OF rest] obtain es where es: "journal r' = journal r1 @ es"
      by blast
    from sync_item_world [OF step] have mono: "uuid_calls w \<le> uuid_calls w1" by simp
    have first: "\<exists>w0. uuid_calls w \<le> uuid_calls w0 \<and> filename e = fst (get_photo_filename x (item e) w0)"
      using e(2,3) by blast
    have "\<forall>a \<in> set es. \<exists>w0. uuid_calls w1 \<le> uuid_calls w0
              \<and> filename a = fst (get_photo_filename x (item a) w0)"
      using Cons.IH [OF rest] es by simp
    with mono have later: "\<forall>a \<in> set es. \<exists>w0. uuid_calls w \<le> uuid_calls w0
              \<and> filename a = fst (get_photo_filename x (item a) w0)"
      by (meson order_trans)
    have "drop (length (journal r)) (journal r') = e # es"
      using e(1) es by simp
    with first later show ?thesis by simp
  qed
qed

lemma length_error_messages: "length (concat (map error_message es)) = length (filter is_failed es)"
  by (induction es) (auto split: outcome.splits)

lemma outcome_partition:
  "length (filter (\<lambda>e. outcome e = Imported) es) + length (filter (\<lambda>e. outcome e = Skipped) es)
     + length (filter is_failed es) = length es"
  by (induction es) (auto split: outcome.splits)



lemma perform_sync_run:
  assumes "get_s3_client x = Inr (client, bucket)"
      and "list_existing_keys x client bucket (ensure_photo_prefix x) = Some (Inr K)"
      and "photos_all api = Inr L"
  shows "\<exists>r w'. perform_sync x api limit w = Some (Inr r, w')
           \<and> map item (journal r) = first_items limit L
           \<and> (\<forall>e \<in> set (journal r). dkey e = destination_key (ensure_photo_prefix x)
                 (get_photo_identifier (item e)) (filename e))
           \<and> (\<forall>e \<in> set (journal r). \<exists>w0. uuid_calls w \<le> uuid_calls w0
                 \<and> filename e = fst (get_photo_filename x (item e) w0))
           \<and> imported r = int (length (filter (\<lambda>e. outcome e = Imported) (journal r)))
           \<and> skipped r = int (length (filter (\<lambda>e. outcome e = Skipped) (journal r)))
           \<and> errors r = concat (map error_message (journal r))
           \<and> existing r = K \<union> set (uploaded_keys (journal r))
           \<and> consistent K (journal r)"
proof -
  let ?w1 = "w\<lparr>trace := trace w @ [EvSync limit]\<rparr>"
  let ?r0 = "\<lparr>existing = K, imported = 0, skipped = 0, errors = [], journal = []\<rparr>"
  obtain r w' where loop:
    "sync_loop x client bucket (ensure_photo_prefix x) limit 0 L ?r0 ?w1 = (r, w')"
    by (cases "sync_loop x client bucket (ensure_photo_prefix x) limit 0 L ?r0 ?w1")
  have run: "perform_sync x api limit w = Some (Inr r, w')"
    using assms loop by (simp add: perform_sync_def Let_def)
  have rem: "remaining limit 0 L = first_items limit L"
    by (simp add: remaining_def first_items_def split: option.splits)
  have names: "\<forall>e \<in> set (journal r). \<exists>w0. uuid_calls w \<le> uuid_calls w0
                 \<and> filename e = fst (get_photo_filename x (item e) w0)"
    using sync_loop_filenames [OF loop] by simp
  from sync_loop_log [OF loop] obtain es where es:
    "journal r = es" "map item es = remaining limit 0 L"
    "\<forall>e \<in> set es. dkey e = destination_key (ensure_photo_prefix x) (get_photo_identifier (item e)) (filename e)"
    "imported r = int (length (filter (\<lambda>e. outcome e = Imported) es))"
    "skipped r = int (length (filter (\<lambda>e. outcome e = Skipped) es))"
    "errors r = concat (map error_message es)"
    "existing r = K \<union> set (uploaded_keys es)"
    "consistent K es"
    by auto
  show ?thesis
    apply (rule exI [of _ r])
    apply (rule exI [of _ w'])
    using run names es rem by simp
qed

section \<open>Listing, paths and characters\<close>

lemma page_keys_eq:
  "(case Contents response of None \<Rightarrow> [] | Some items \<Rightarrow> items) = page \<Longrightarrow>
     page_keys response = keys_of page"
  by (force simp: page_keys_def keys_of_def split: option.splits if_splits)

lemma keys_of_append: "keys_of (xs @ ys) = keys_of xs \<union> keys_of ys"
  by (auto simp: keys_of_def)

lemma list_loop_paged:
  assumes "paged x client bucket prefix token pages" and "token = None \<or> truthy token"
  shows "list_loop x client bucket prefix keys token = Some (Inr (keys \<union> keys_of (concat pages)))"
  using assms
proof (induction pages arbitrary: keys token)
  case Nil
  then show ?case by simp
next
  case (Cons page rest)
  from Cons.prems(2) have tok: "(if truthy token then token else None) = token" by auto
  from Cons.prems(1) obtain response where
    resp: "list_objects_v2 x client \<lparr>Bucket = bucket, Prefix = prefix, ContinuationToken = token\<rparr>
             = Inr response"
    and page: "(case Contents response of None \<Rightarrow> [] | Some items \<Rightarrow> items) = page"
    and more: "if rest = [] then \<not> IsTruncated response
               else IsTruncated response \<and> truthy (NextContinuationToken response)
                    \<and> paged x client bucket prefix (NextContinuationToken response) rest"
    by (auto split: sum.splits)
  show ?case
  proof (cases "rest = []")
    case True
    with more have "\<not> IsTruncated response" by simp
    with resp tok True show ?thesis
      by (subst list_loop.simps) (simp add: page_keys_eq [OF page])
  next
    case False
    with more have trunc: "IsTruncated response" "truthy (NextContinuationToken response)"
      "paged x client bucket prefix (NextContinuationToken response) rest" by simp_all
    from Cons.IH [OF trunc(3), of "keys \<union> keys_of page"] trunc(2)
    have "list_loop x client bucket prefix (keys \<union> keys_of page) (NextContinuationToken response)
            = Some (Inr ((keys \<union> keys_of page) \<union> keys_of (concat rest)))"
      by simp
    with resp tok trunc(1) show ?thesis
      by (subst list_loop.simps) (simp add: page_keys_eq [OF page] keys_of_append Un_assoc)
  qed
qed

lemma ascii_isalnum:
  "is_ascii ch \<Longrightarrow> (isalnum ch \<or> ch \<in> {CHR ''-'', CHR ''_''}) = ascii_key_char ch"
  by (auto simp: is_ascii_def isalnum_def ascii_key_char_def in_range_def Let_def)

lemma basename_no_slash: "CHR ''/'' \<notin> set (basename p)"
proof -
  have "\<forall>c \<in> set (takeWhile (\<lambda>c. c \<noteq> CHR ''/'') (rev p)). c \<noteq> CHR ''/''"
    using set_takeWhileD by fastforce
  then show ?thesis by (auto simp: basename_def)
qed

lemma join_plain:
  "d \<noteq> [] \<Longrightarrow> last d \<noteq> CHR ''/'' \<Longrightarrow> CHR ''/'' \<notin> set n \<Longrightarrow> join d n = d @ ''/'' @ n"
  by (cases n) (auto simp: join_def)

lemma basename_child: "CHR ''/'' \<notin> set n \<Longrightarrow> basename (d @ ''/'' @ n) = n"
proof -
  have "takeWhile (\<lambda>c. c \<noteq> CHR ''/'') (rev n @ CHR ''/'' # rev d) = rev n" if "CHR ''/'' \<notin> set n"
    using that by (subst takeWhile_append2) auto
  then show "CHR ''/'' \<notin> set n \<Longrightarrow> basename (d @ ''/'' @ n) = n"
    by (simp add: basename_def)
qed

lemma utf8_length_append: "utf8_length (a @ b) = utf8_length a + utf8_length b"
  by (simp add: utf8_length_def)

lemma utf8_length_replicate_ascii:
  "(of_char c :: nat) < 0x80 \<Longrightarrow> utf8_length (replicate n c) = n"
  by (induction n) (simp_all add: utf8_length_def)

lemma basename_plain:
  assumes "CHR ''/'' \<notin> set n"
  shows "basename n = n"
proof -
  have "\<forall>c \<in> set (rev n). c \<noteq> CHR ''/''" using assms by auto
  then have "takeWhile (\<lambda>c. c \<noteq> CHR ''/'') (rev n) = rev n"
    by (simp only: takeWhile_eq_all_conv)
  then show ?thesis unfolding basename_def by (simp only: rev_rev_ident)
qed

lemma update_new: "k \<notin> fst ` set al \<Longrightarrow> AList.update k v al = al @ [(k, v)]"
  by (induction al) auto

section \<open>The endpoints\<close>

lemma extract_session_payload_returns:
  assumes "map_of disk dir = Some Dir"
  shows "\<exists>p. extract_session_payload disk dir = Inr p"
proof -
  from assms obtain names where names: "listdir disk dir = Inr names"
    by (simp add: listdir_def)
  show ?thesis
  proof (cases "filter (\<lambda>f. isfile disk (join dir f)) names")
    case Nil
    with names show ?thesis by (simp add: extract_session_payload_def)
  next
    case (Cons name rest)
    then have "name \<in> set (filter (\<lambda>f. isfile disk (join dir f)) names)" by simp
    then have "isfile disk (join dir name)" by simp
    then obtain body where "open_read_text disk (join dir name) = Inr body"
      by (auto simp: isfile_def open_read_text_def open_read_bytes_def split: option.splits node.splits)
    with Cons names show ?thesis by (simp add: extract_session_payload_def)
  qed
qed

lemma sync_and_extract_returns:
  assumes "get_s3_client x = Inr (client, bucket)"
      and "list_existing_keys x client bucket (ensure_photo_prefix x) = Some (Inr K)"
      and "photos_all api = Inr L"
      and "map_of (fs w) dir = Some Dir"
  shows "\<exists>rep w'. sync_and_extract x api limit dir w = Some (Inr rep, w') \<and> status rep = ''ok''
           \<and> pending_sessions w' = pending_sessions w \<and> trace w' = trace w @ [EvSync limit]"
proof -
  from perform_sync_run [OF assms(1-3), where limit = limit and w = w] obtain r w' where
    run: "perform_sync x api limit w = Some (Inr r, w')"
    by (elim exE conjE) (rule that)
  from perform_sync_keeps_dir [OF run assms(4)]
  obtain p where p: "extract_session_payload (fs w') dir = Inr p"
    using extract_session_payload_returns by blast
  from run p have "sync_and_extract x api limit dir w
      = Some (Inr (Ok (imported r) (skipped r) (errors r) p), w')"
    by (simp add: sync_and_extract_def)
  with perform_sync_world [OF run] show ?thesis by simp
qed

lemma sync_photos_parks:
  assumes "verify_token x authorization = None"
      and "create_session_dir x (req_session request) w = (Inr dir, w1)"
      and "PyiCloudService x (req_apple_id request) (req_app_password request) dir (fs w1) = Inr (api, disk)"
      and "requires_2fa api \<or> requires_2sa api"
  shows "sync_photos x request authorization w = Some (Inr (Needs2fa (uuid4_hex x (uuid_calls w1))),
       w1\<lparr>trace := trace w1 @ [EvLogin (req_apple_id request) (req_app_password request) dir],
          fs := disk, uuid_calls := Suc (uuid_calls w1),
          pending_sessions := (pending_sessions w1)(uuid4_hex x (uuid_calls w1) \<mapsto>
                 \<lparr>apple_id = req_apple_id request, app_password = req_app_password request,
                  session_dir = dir, created_at = time_time x\<rparr>)\<rparr>)"
  using assms by (simp add: sync_photos_def Let_def uuid4_def)

lemma resume_login_2fa:
  assumes "verify_token x authorization = None"
      and "pending_sessions w (session_id payload) = Some pending"
      and "PyiCloudService x (apple_id pending) (app_password pending) (session_dir pending) (fs w)
             = Inr (api, disk)"
      and "requires_2fa api"
  shows "if validate_2fa_code api (code payload)
         then \<forall>rep w'. sync_with_2fa x payload authorization w = Some (Inr rep, w') \<longrightarrow>
                pending_sessions w' = (pending_sessions w)(session_id payload := None)
                \<and> trace w' = trace w @ [EvLogin (apple_id pending) (app_password pending) (session_dir pending),
                                         EvValidate (code payload), EvSync None]
         else sync_with_2fa x payload authorization w
                = Some (Inl (HTTPException 401 ''Invalid 2FA code''),
                        w\<lparr>trace := trace w @ [EvLogin (apple_id pending) (app_password pending) (session_dir pending),
                                                EvValidate (code payload)],
                          fs := disk\<rparr>)"
  using assms
  by (auto simp: sync_with_2fa_def Let_def split: option.splits sum.splits prod.splits
      dest!: sync_and_extract_world)

lemma resume_login_proceeds:
  assumes "verify_token x authorization = None"
      and "pending_sessions w (session_id payload) = Some pending"
      and "PyiCloudService x (apple_id pending) (app_password pending) (session_dir pending) (fs w)
             = Inr (api, disk)"
      and "\<not> requires_2fa api \<or> validate_2fa_code api (code payload)"
      and "get_s3_client x = Inr (client, bucket)"
      and "list_existing_keys x client bucket (ensure_photo_prefix x) = Some (Inr K)"
      and "photos_all api = Inr L"
      and "map_of disk (session_dir pending) = Some Dir"
  shows "\<exists>rep w'. sync_with_2fa x payload authorization w = Some (Inr rep, w') \<and> status rep = ''ok''
           \<and> pending_sessions w' = (pending_sessions w)(session_id payload := None)
           \<and> trace w' = trace w @ [EvLogin (apple_id pending) (app_password pending) (session_dir pending)]
                            @ (if requires_2fa api then [EvValidate (code payload)] else [])
                            @ [EvSync None]"
proof -
  let ?w1 = "w\<lparr>trace := trace w @ [EvLogin (apple_id pending) (app_password pending) (session_dir pending)]\<rparr>"
  let ?w2 = "?w1\<lparr>fs := disk\<rparr>"
  let ?w3 = "if requires_2fa api then ?w2\<lparr>trace := trace ?w2 @ [EvValidate (code payload)]\<rparr> else ?w2"
  have "map_of (fs ?w3) (session_dir pending) = Some Dir" using assms(8) by simp
  from sync_and_extract_returns [OF assms(5-7) this, of None]
  obtain rep w4 where run: "sync_and_extract x api None (session_dir pending) ?w3 = Some (Inr rep, w4)"
    and rep: "status rep = ''ok''" "pending_sessions w4 = pending_sessions ?w3"
      "trace w4 = trace ?w3 @ [EvSync None]"
    by blast
  have "sync_with_2fa x payload authorization w =
          (if requires_2fa api \<and> \<not> validate_2fa_code api (code payload)
           then Some (Inl (HTTPException 401 ''Invalid 2FA code''), ?w3)
           else (case sync_and_extract x api None (session_dir pending) ?w3 of
                   None \<Rightarrow> None
                 | Some (Inl e, w4) \<Rightarrow> Some (Inl e, w4)
                 | Some (Inr rep, w4) \<Rightarrow>
                     Some (Inr rep, w4\<lparr>pending_sessions :=
                             (pending_sessions w4)(session_id payload := None)\<rparr>)))"
    using assms(1-3) by (simp add: sync_with_2fa_def Let_def)
  also have "\<dots> = Some (Inr rep, w4\<lparr>pending_sessions := (pending_sessions w4)(session_id payload := None)\<rparr>)"
    using assms(4) by (simp only: run) auto
  finally have res: "sync_with_2fa x payload authorization w
      = Some (Inr rep, w4\<lparr>pending_sessions := (pending_sessions w4)(session_id payload := None)\<rparr>)" .
  have "pending_sessions ?w3 = pending_sessions w" by simp
  moreover have "trace ?w3 = trace w @ [EvLogin (apple_id pending) (app_password pending) (session_dir pending)]
                            @ (if requires_2fa api then [EvValidate (code payload)] else [])"
    by simp
  ultimately show ?thesis using res rep by simp
qed

text \<open>
  The property \<open>issued\<close> holds for the empty table and is kept by both endpoints.
\<close>

lemma issued_empty: "pending_sessions w = Map.empty \<Longrightarrow> issued x w"
  by (simp add: issued_def)


lemma issued_mono:
  "issued x w \<Longrightarrow> pending_sessions w' = pending_sessions w \<Longrightarrow> uuid_calls w \<le> uuid_calls w' \<Longrightarrow>
     issued x w'"
  unfolding issued_def by (metis (no_types, lifting) image_mono lessThan_subset_iff subset_trans)


lemma issued_remove:
  "issued x w \<Longrightarrow> issued x (w\<lparr>pending_sessions := (pending_sessions w)(sid := None)\<rparr>)"
  by (auto simp: issued_def)

lemma issued_sync_with_2fa:
  assumes "issued x w" and "sync_with_2fa x payload authorization w = Some (res, w')"
  shows "issued x w'"
proof (cases "verify_token x authorization")
  case (Some e)
  with assms show ?thesis by (simp add: sync_with_2fa_def)
next
  case None
  show ?thesis
  proof (cases "pending_sessions w (session_id payload)")
    case no: None
    with assms None show ?thesis by (simp add: sync_with_2fa_def)
  next
    case (Some pending)
    let ?w1 = "w\<lparr>trace := trace w @ [EvLogin (apple_id pending) (app_password pending) (session_dir pending)]\<rparr>"
    have i1: "issued x ?w1" using assms(1) by (simp add: issued_def)
    show ?thesis
    proof (cases "PyiCloudService x (apple_id pending) (app_password pending) (session_dir pending) (fs ?w1)")
      case (Inl e)
      with assms(2) None Some i1 show ?thesis by (simp add: sync_with_2fa_def Let_def)
    next
      case login: (Inr pair)
      obtain api disk where pair: "pair = (api, disk)" by (cases pair)
      let ?w3 = "if requires_2fa api
                 then ?w1\<lparr>fs := disk, trace := trace ?w1 @ [EvValidate (code payload)]\<rparr>
                 else ?w1\<lparr>fs := disk\<rparr>"
      have i3: "issued x ?w3" using i1 by (simp add: issued_def)
      show ?thesis
      proof (cases "requires_2fa api \<and> \<not> validate_2fa_code api (code payload)")
        case True
        with assms(2) None Some login pair have "w' = ?w3"
          by (simp add: sync_with_2fa_def Let_def)
        with i3 show ?thesis by simp
      next
        case False
        with assms(2) None Some login pair obtain res4 w4 where
          run: "sync_and_extract x api None (session_dir pending) ?w3 = Some (res4, w4)"
          and w': "w' = w4 \<or> w' = w4\<lparr>pending_sessions := (pending_sessions w4)(session_id payload := None)\<rparr>"
          by (auto simp: sync_with_2fa_def Let_def split: option.splits sum.splits prod.splits if_splits)
        from sync_and_extract_world [OF run] i3 have "issued x w4"
          by (auto intro: issued_mono)
        with w' show ?thesis using issued_remove by auto
      qed
    qed
  qed
qed

section \<open>Facts about the sample installation\<close>

lemma demo_cfg: "get_s3_client demo_ext = Inr (demo_client, ''bucket'')"
  by (simp add: get_s3_client_def demo_ext_def demo_client_def)

lemma demo_prefix: "ensure_photo_prefix demo_ext = ''photos/''"
  by (simp add: ensure_photo_prefix_def demo_ext_def)

lemma demo_listing:
  "list_existing_keys demo_ext demo_client ''bucket'' ''photos/'' =
     Some (Inr {''photos/a1-p1.jpg'', ''photos/old.png''})"
  by (simp add: list_existing_keys_def list_loop.simps demo_ext_def page_keys_def insert_commute)

lemma demo_token: "verify_token demo_ext (Some ''Bearer good'') = None"
  by (simp add: verify_token_def demo_ext_def)

lemma demo_known_keys: "list_existing_keys demo_ext demo_client ''bucket'' (ensure_photo_prefix demo_ext)
               = Some (Inr {''photos/a1-p1.jpg'', ''photos/old.png''})"
  by (simp add: demo_prefix demo_listing)

lemma demo_api_photos: "photos_all (demo_api fa sa) = Inr demo_photos"
  by (simp add: demo_api_def)

lemma demo_parked:
  "sync_photos demo_ext sa_request (Some ''Bearer good'') early_world
     = Some (Inr (Needs2fa ''aa''), demo_world)"
proof -
  let ?w1 = "early_world\<lparr>fs := fs early_world @ [(''/tmp/icloud-session-aa'', Dir)], mkdtemp_calls := 2\<rparr>"
  have dir: "create_session_dir demo_ext (req_session sa_request) early_world
               = (Inr ''/tmp/icloud-session-aa'', ?w1)"
    by (simp add: create_session_dir_def mkdtemp_def demo_ext_def early_world_def sa_request_def Let_def
        numeral_2_eq_2)
  have login: "PyiCloudService demo_ext (req_apple_id sa_request) (req_app_password sa_request)
                 ''/tmp/icloud-session-aa'' (fs ?w1) = Inr (demo_api False True, fs ?w1)"
    by (simp add: demo_ext_def sa_request_def)
  have flag: "requires_2fa (demo_api False True) \<or> requires_2sa (demo_api False True)"
    by (simp add: demo_api_def)
  show ?thesis
    unfolding sync_photos_parks [OF demo_token dir login flag]
    by (simp add: demo_ext_def early_world_def demo_world_def sa_request_def numeral_2_eq_2)
qed




lemma consistent_calls:
  "consistent K es \<Longrightarrow> \<forall>e \<in> set es. \<forall>k. Put k \<in> set (calls e) \<longrightarrow> k = dkey e"
proof (induction es arbitrary: K)
  case Nil
  then show ?case by simp
next
  case (Cons e es)
  let ?K' = "if outcome e = Imported then insert (dkey e) K else K"
  from Cons.prems have "consistent ?K' es" by simp
  from Cons.IH [OF this] have ih: "\<forall>e \<in> set es. \<forall>k. Put k \<in> set (calls e) \<longrightarrow> k = dkey e" .
  from Cons.prems have "set (calls e) \<subseteq> {Download, Put (dkey e)}"
    by (auto split: if_splits)
  then have "\<forall>k. Put k \<in> set (calls e) \<longrightarrow> k = dkey e" by auto
  with ih show ?case by simp
qed

lemma demo_filenames:
  "fst (get_photo_filename demo_ext photo_a1 w0) = ''p1.jpg''"
  "fst (get_photo_filename demo_ext photo_p2 w0) = ''p2.png''"
  "fst (get_photo_filename demo_ext photo_bad w0) = ''p3.jpg''"
  by (simp_all add: get_photo_filename_def photo_a1_def photo_p2_def photo_bad_def)

lemma demo_identifiers:
  "safe_identifier (get_photo_identifier photo_a1) = ''a1''"
  "safe_identifier (get_photo_identifier photo_p2) = []"
  "safe_identifier (get_photo_identifier photo_bad) = ''b7''"
  by (simp_all add: get_photo_identifier_def safe_identifier_def isalnum_def
      photo_a1_def photo_p2_def photo_bad_def)






section \<open>Resuming a login\<close>

text \<open>
  Claim C1. Resuming a parked login (POST \<open>/sync/2fa\<close>) is meant to validate the supplied
  code whenever the re-invoked login still has a verification pending: an invalid code is
  answered with the authorization error and the session stays in the table, a valid code is
  followed by one sync run without limit and the removal of the session. The handler does
  this when the handle reports \<open>requires_2fa\<close> (lemmas \<open>resume_login_2fa\<close> and
  \<open>resume_login_proceeds\<close>). It tests that flag only, while \<open>sync_photos\<close> parks a
  login on \<open>requires_2fa or requires_2sa\<close>. In the sample installation the account
  \<open>sa@example.com\<close> reports \<open>requires_2sa\<close> alone: \<open>sync_photos\<close> parks its login
  under the session id \<open>aa\<close>. Resuming that session with the code \<open>000000\<close>, which
  the handle rejects, raises nothing: the code is never validated (the trace has the two
  logins and the sync run, and no validation), the sync run starts, the reply is \<open>ok\<close>
  and the session is removed.
\<close>

theorem resume_2sa_skips_validation:
  "sync_photos demo_ext sa_request (Some ''Bearer good'') early_world
     = Some (Inr (Needs2fa ''aa''), demo_world)
   \<and> PyiCloudService demo_ext ''sa@example.com'' ''pw'' ''/tmp/icloud-session-aa'' (fs demo_world)
       = Inr (demo_api False True, fs demo_world)
   \<and> requires_2sa (demo_api False True)
   \<and> \<not> validate_2fa_code (demo_api False True) ''000000''
   \<and> (\<exists>rep w'. sync_with_2fa demo_ext \<lparr>session_id = ''aa'', code = ''000000''\<rparr> (Some ''Bearer good'') demo_world
                  = Some (Inr rep, w')
         \<and> status rep = ''ok''
         \<and> pending_sessions w' ''aa'' = None
         \<and> trace w' = [EvLogin ''fa@example.com'' ''pw'' ''/tmp/icloud-session-a'',
                        EvLogin ''sa@example.com'' ''pw'' ''/tmp/icloud-session-aa'',
                        EvLogin ''sa@example.com'' ''pw'' ''/tmp/icloud-session-aa'',
                        EvSync None])"
proof -
  let ?pending = "\<lparr>apple_id = ''sa@example.com'', app_password = ''pw'',
                   session_dir = ''/tmp/icloud-session-aa'', created_at = 0\<rparr>"
  let ?payload = "\<lparr>session_id = ''aa'', code = ''000000''\<rparr>"
  have look: "pending_sessions demo_world (session_id ?payload) = Some ?pending"
    by (simp add: demo_world_def)
  have login: "PyiCloudService demo_ext (apple_id ?pending) (app_password ?pending) (session_dir ?pending)
                 (fs demo_world) = Inr (demo_api False True, fs demo_world)"
    by (simp add: demo_ext_def)
  have flag: "\<not> requires_2fa (demo_api False True)" by (simp add: demo_api_def)
  have photos: "photos_all (demo_api False True) = Inr demo_photos" by (simp add: demo_api_def)
  have lst: "list_existing_keys demo_ext demo_client ''bucket'' (ensure_photo_prefix demo_ext)
               = Some (Inr {''photos/a1-p1.jpg'', ''photos/old.png''})"
    by (simp add: demo_prefix demo_listing)
  have code: "\<not> validate_2fa_code (demo_api False True) ''000000''" by (simp add: demo_api_def)
  have before: "trace demo_world = [EvLogin ''fa@example.com'' ''pw'' ''/tmp/icloud-session-a'',
                                     EvLogin ''sa@example.com'' ''pw'' ''/tmp/icloud-session-aa'']"
    by (simp add: demo_world_def)
  have login': "PyiCloudService demo_ext ''sa@example.com'' ''pw'' ''/tmp/icloud-session-aa'' (fs demo_world)
                  = Inr (demo_api False True, fs demo_world)"
    using login by simp
  have sa: "requires_2sa (demo_api False True)" by (simp add: demo_api_def)
  have flag': "\<not> requires_2fa (demo_api False True)
               \<or> validate_2fa_code (demo_api False True) (code ?payload)"
    using flag by simp
  have dir: "map_of (fs demo_world) (session_dir ?pending) = Some Dir"
    by (simp add: demo_world_def)
  from resume_login_proceeds [OF demo_token look login flag' demo_cfg lst photos dir] flag
  obtain rep w' where
    "sync_with_2fa demo_ext ?payload (Some ''Bearer good'') demo_world = Some (Inr rep, w')"
    "status rep = ''ok''"
    "pending_sessions w' = (pending_sessions demo_world)(''aa'' := None)"
    "trace w' = trace demo_world @ [EvLogin ''sa@example.com'' ''pw'' ''/tmp/icloud-session-aa'', EvSync None]"
    by auto
  with code before have
    "\<exists>rep w'. sync_with_2fa demo_ext ?payload (Some ''Bearer good'') demo_world = Some (Inr rep, w')
         \<and> status rep = ''ok''
         \<and> pending_sessions w' ''aa'' = None
         \<and> trace w' = [EvLogin ''fa@example.com'' ''pw'' ''/tmp/icloud-session-a'',
                        EvLogin ''sa@example.com'' ''pw'' ''/tmp/icloud-session-aa'',
                        EvLogin ''sa@example.com'' ''pw'' ''/tmp/icloud-session-aa'',
                        EvSync None]"
    by simp
  with demo_parked login' sa code show ?thesis by (intro conjI)
qed

section \<open>Key builder\<close>

text \<open>
  Claim C2, as stated: the sanitized identifier never contains a character outside
  \<open>[A-Za-z0-9_-]\<close>. This fails: \<open>str.isalnum\<close> accepts letters and digits beyond
  ASCII, so the identifier made of U+00E9 (e with acute accent) and the digit 1 is kept whole.
\<close>

theorem sanitize_keeps_non_ascii_counterexample:
  "safe_identifier (Some [CHR 0xE9, CHR ''1'']) = [CHR 0xE9, CHR ''1''] \<and> \<not> ascii_key_char (CHR 0xE9)"
  by (simp add: safe_identifier_def isalnum_def ascii_key_char_def in_range_def)

text \<open>
  Claim C2, amended: for every identifier, the sanitization step keeps exactly the
  characters that are alphanumeric in the sense of \<open>str.isalnum\<close>, or a hyphen, or an
  underscore, in their order, and drops every other character without replacement; an
  absent identifier gives the empty string. When the identifier consists of ASCII
  characters, the characters kept are exactly those of \<open>[A-Za-z0-9_-]\<close>, so the result
  contains no other character.
\<close>

theorem sanitize_keeps_alnum_dash_underscore:
  "safe_identifier None = []
   \<and> safe_identifier (Some s) = filter (\<lambda>ch. isalnum ch \<or> ch = CHR ''-'' \<or> ch = CHR ''_'') s
   \<and> (list_all is_ascii s \<longrightarrow>
        safe_identifier (Some s) = filter ascii_key_char s
        \<and> list_all ascii_key_char (safe_identifier (Some s)))"
proof -
  have 1: "safe_identifier None = []" by (simp add: safe_identifier_def)
  have 2: "safe_identifier (Some s) = filter (\<lambda>ch. isalnum ch \<or> ch = CHR ''-'' \<or> ch = CHR ''_'') s"
    by (cases s) (simp_all add: safe_identifier_def)
  have 3: "safe_identifier (Some s) = filter ascii_key_char s" if "list_all is_ascii s"
  proof -
    from that have "\<forall>ch \<in> set s. (isalnum ch \<or> ch = CHR ''-'' \<or> ch = CHR ''_'') = ascii_key_char ch"
      using ascii_isalnum by (auto simp: list_all_iff)
    then show ?thesis unfolding 2 by (intro filter_cong) auto
  qed
  from 1 2 3 show ?thesis by (auto simp: list_all_iff)
qed

theorem sanitize_keeps_alnum_dash_underscore_witness:
  "list_all is_ascii ''A1+b/2_c-d=''
   \<and> safe_identifier (Some ''A1+b/2_c-d='') = ''A1b2_c-d''
   \<and> list_all ascii_key_char ''A1b2_c-d''"
proof -
  have h: "list_all is_ascii ''A1+b/2_c-d=''" by (simp add: is_ascii_def)
  have f: "filter ascii_key_char ''A1+b/2_c-d='' = ''A1b2_c-d''"
    by (simp add: ascii_key_char_def in_range_def)
  from sanitize_keeps_alnum_dash_underscore [of "''A1+b/2_c-d=''"] h
  have "safe_identifier (Some ''A1+b/2_c-d='') = filter ascii_key_char ''A1+b/2_c-d=''"
    and "list_all ascii_key_char (safe_identifier (Some ''A1+b/2_c-d=''))"
    by blast+
  with h f show ?thesis by simp
qed

text \<open>
  Claim C7. A sync run processes the first items of the collection, one journal entry for
  each. For every one of them the filename is the one \<open>get_photo_filename\<close> resolves
  for the item, and the key is the prefix, then the sanitized identifier and a hyphen when
  the sanitized identifier is not empty, then that filename; an upload that is made for the
  item is made under this key. The key depends on nothing else: two items with the same
  identifier and the same resolved filename get the same key, also across two runs of the
  same installation with different collections, limits and states.
\<close>

theorem destination_key_formula:
  assumes "get_s3_client x = Inr (client, bucket)"
      and "list_existing_keys x client bucket (ensure_photo_prefix x) = Some (Inr K)"
      and "photos_all api = Inr L"
      and "photos_all api' = Inr L'"
  shows "\<exists>r w' r' v'. perform_sync x api limit w = Some (Inr r, w')
           \<and> perform_sync x api' limit' v = Some (Inr r', v')
           \<and> map item (journal r) = first_items limit L
           \<and> map item (journal r') = first_items limit' L'
           \<and> (\<forall>e \<in> set (journal r).
                 (\<exists>w0. uuid_calls w \<le> uuid_calls w0
                    \<and> filename e = fst (get_photo_filename x (item e) w0))
                 \<and> dkey e = (if safe_identifier (get_photo_identifier (item e)) \<noteq> []
                           then ensure_photo_prefix x @ safe_identifier (get_photo_identifier (item e))
                                  @ ''-'' @ filename e
                           else ensure_photo_prefix x @ filename e)
                 \<and> (\<forall>k. Put k \<in> set (calls e) \<longrightarrow> k = dkey e))
           \<and> (\<forall>e \<in> set (journal r). \<forall>e' \<in> set (journal r').
                 get_photo_identifier (item e) = get_photo_identifier (item e') \<and> filename e = filename e'
                 \<longrightarrow> dkey e = dkey e')"
proof -
  from perform_sync_run [OF assms(1-3), where limit = limit and w = w] obtain r w' where
    run: "perform_sync x api limit w = Some (Inr r, w')"
    and items: "map item (journal r) = first_items limit L"
    and keys: "\<forall>e \<in> set (journal r). dkey e = destination_key (ensure_photo_prefix x)
                 (get_photo_identifier (item e)) (filename e)"
    and names: "\<forall>e \<in> set (journal r). \<exists>w0. uuid_calls w \<le> uuid_calls w0
                 \<and> filename e = fst (get_photo_filename x (item e) w0)"
    and cons: "consistent K (journal r)"
    by (elim exE conjE) (rule that)
  from perform_sync_run [OF assms(1,2,4), where limit = limit' and w = v] obtain r' v' where
    run': "perform_sync x api' limit' v = Some (Inr r', v')"
    and items': "map item (journal r') = first_items limit' L'"
    and keys': "\<forall>e \<in> set (journal r'). dkey e = destination_key (ensure_photo_prefix x)
                 (get_photo_identifier (item e)) (filename e)"
    by (elim exE conjE) (rule that)
  note puts = consistent_calls [OF cons]
  have a: "\<forall>e \<in> set (journal r).
                 (\<exists>w0. uuid_calls w \<le> uuid_calls w0
                    \<and> filename e = fst (get_photo_filename x (item e) w0))
                 \<and> dkey e = (if safe_identifier (get_photo_identifier (item e)) \<noteq> []
                           then ensure_photo_prefix x @ safe_identifier (get_photo_identifier (item e))
                                  @ ''-'' @ filename e
                           else ensure_photo_prefix x @ filename e)
                 \<and> (\<forall>k. Put k \<in> set (calls e) \<longrightarrow> k = dkey e)"
  proof
    fix e assume e: "e \<in> set (journal r)"
    from keys e have "dkey e = (if safe_identifier (get_photo_identifier (item e)) \<noteq> []
                           then ensure_photo_prefix x @ safe_identifier (get_photo_identifier (item e))
                                  @ ''-'' @ filename e
                           else ensure_photo_prefix x @ filename e)"
      by (simp add: destination_key_def)
    with names puts e show "(\<exists>w0. uuid_calls w \<le> uuid_calls w0
                    \<and> filename e = fst (get_photo_filename x (item e) w0))
                 \<and> dkey e = (if safe_identifier (get_photo_identifier (item e)) \<noteq> []
                           then ensure_photo_prefix x @ safe_identifier (get_photo_identifier (item e))
                                  @ ''-'' @ filename e
                           else ensure_photo_prefix x @ filename e)
                 \<and> (\<forall>k. Put k \<in> set (calls e) \<longrightarrow> k = dkey e)"
      by (intro conjI) blast+
  qed
  have b: "\<forall>e \<in> set (journal r). \<forall>e' \<in> set (journal r').
                 get_photo_identifier (item e) = get_photo_identifier (item e') \<and> filename e = filename e'
                 \<longrightarrow> dkey e = dkey e'"
    using keys keys' by simp
  show ?thesis
    apply (rule exI [of _ r])
    apply (rule exI [of _ w'])
    apply (rule exI [of _ r'])
    apply (rule exI [of _ v'])
    apply (intro conjI)
    apply (fact run run' items items' a b)+
    done
qed

theorem destination_key_formula_witness:
  "get_s3_client demo_ext = Inr (demo_client, ''bucket'')
   \<and> list_existing_keys demo_ext demo_client ''bucket'' (ensure_photo_prefix demo_ext)
       = Some (Inr {''photos/a1-p1.jpg'', ''photos/old.png''})
   \<and> photos_all (demo_api False False) = Inr demo_photos
   \<and> photos_all (demo_api False True) = Inr demo_photos
   \<and> (\<exists>r w' r' v'. perform_sync demo_ext (demo_api False False) None demo_world = Some (Inr r, w')
         \<and> perform_sync demo_ext (demo_api False True) (Some 1) demo_world = Some (Inr r', v')
         \<and> map item (journal r) = [photo_a1, photo_a1, photo_p2, photo_bad]
         \<and> map item (journal r') = [photo_a1]
         \<and> map filename (journal r) = [''p1.jpg'', ''p1.jpg'', ''p2.png'', ''p3.jpg'']
         \<and> map dkey (journal r)
             = [''photos/a1-p1.jpg'', ''photos/a1-p1.jpg'', ''photos/p2.png'', ''photos/b7-p3.jpg''])
   \<and> destination_key ''photos/'' (Some ''a1'') ''p1.jpg'' = ''photos/a1-p1.jpg''
   \<and> destination_key ''photos/'' (Some ''+/='') ''p1.jpg'' = ''photos/p1.jpg''
   \<and> destination_key ''photos/'' None ''p2.png'' = ''photos/p2.png''"
proof -
  from destination_key_formula [OF demo_cfg demo_known_keys demo_api_photos [of False False]
      demo_api_photos [of False True],
      where limit = None and w = demo_world and limit' = "Some 1" and v = demo_world]
  obtain r w' r' v' where
    run: "perform_sync demo_ext (demo_api False False) None demo_world = Some (Inr r, w')"
    and run': "perform_sync demo_ext (demo_api False True) (Some 1) demo_world = Some (Inr r', v')"
    and items: "map item (journal r) = first_items None demo_photos"
    and items': "map item (journal r') = first_items (Some 1) demo_photos"
    and keys: "\<forall>e \<in> set (journal r).
                 (\<exists>w0. uuid_calls demo_world \<le> uuid_calls w0
                    \<and> filename e = fst (get_photo_filename demo_ext (item e) w0))
                 \<and> dkey e = (if safe_identifier (get_photo_identifier (item e)) \<noteq> []
                           then ensure_photo_prefix demo_ext @ safe_identifier (get_photo_identifier (item e))
                                  @ ''-'' @ filename e
                           else ensure_photo_prefix demo_ext @ filename e)
                 \<and> (\<forall>k. Put k \<in> set (calls e) \<longrightarrow> k = dkey e)"
    by (elim exE conjE) (rule that)
  from items have i: "map item (journal r) = [photo_a1, photo_a1, photo_p2, photo_bad]"
    by (simp add: first_items_def demo_photos_def)
  from items' have i': "map item (journal r') = [photo_a1]"
    by (simp add: first_items_def demo_photos_def)
  from i obtain e1 e2 e3 e4 where j: "journal r = [e1, e2, e3, e4]"
    and it: "item e1 = photo_a1" "item e2 = photo_a1" "item e3 = photo_p2" "item e4 = photo_bad"
    by (auto simp: map_eq_Cons_conv)
  from keys have f: "filename e1 = ''p1.jpg''" "filename e2 = ''p1.jpg''"
    "filename e3 = ''p2.png''" "filename e4 = ''p3.jpg''"
    unfolding j by (auto simp: it demo_filenames)
  from keys have k: "dkey e1 = ''photos/a1-p1.jpg''" "dkey e2 = ''photos/a1-p1.jpg''"
    "dkey e3 = ''photos/p2.png''" "dkey e4 = ''photos/b7-p3.jpg''"
    unfolding j demo_prefix by (simp_all add: it f demo_identifiers)
  have "\<exists>r w' r' v'. perform_sync demo_ext (demo_api False False) None demo_world = Some (Inr r, w')
         \<and> perform_sync demo_ext (demo_api False True) (Some 1) demo_world = Some (Inr r', v')
         \<and> map item (journal r) = [photo_a1, photo_a1, photo_p2, photo_bad]
         \<and> map item (journal r') = [photo_a1]
         \<and> map filename (journal r) = [''p1.jpg'', ''p1.jpg'', ''p2.png'', ''p3.jpg'']
         \<and> map dkey (journal r)
             = [''photos/a1-p1.jpg'', ''photos/a1-p1.jpg'', ''photos/p2.png'', ''photos/b7-p3.jpg'']"
    apply (rule exI [of _ r])
    apply (rule exI [of _ w'])
    apply (rule exI [of _ r'])
    apply (rule exI [of _ v'])
    apply (intro conjI)
    apply (fact run)
    apply (fact run')
    apply (fact i)
    apply (fact i')
    apply (simp add: j f)
    apply (simp add: j k)
    done
  moreover have "destination_key ''photos/'' (Some ''a1'') ''p1.jpg'' = ''photos/a1-p1.jpg''"
    "destination_key ''photos/'' (Some ''+/='') ''p1.jpg'' = ''photos/p1.jpg''"
    "destination_key ''photos/'' None ''p2.png'' = ''photos/p2.png''"
    by (simp_all add: destination_key_def safe_identifier_def isalnum_def)
  ultimately show ?thesis using demo_cfg demo_known_keys demo_api_photos by simp
qed

section \<open>Existing-object lister\<close>

text \<open>
  Claim C6. When the storage serves the objects under the prefix as any sequence of pages,
  each truncated page supplying the cursor of the next, the lister returns (it does leave
  its loop, and does not fail) the set of the keys of all objects of all pages. The result
  depends on the concatenation of the pages only, not on where the page boundaries fall.
  When there is no object at all, the result is the empty set.
\<close>

theorem lister_enumerates_all_pages:
  assumes "paged x client bucket prefix None pages"
  shows "list_existing_keys x client bucket prefix = Some (Inr (keys_of (concat pages)))
         \<and> (concat pages = [] \<longrightarrow> list_existing_keys x client bucket prefix = Some (Inr {}))"
proof -
  from list_loop_paged [OF assms, of "{}"]
  have "list_existing_keys x client bucket prefix = Some (Inr (keys_of (concat pages)))"
    by (simp add: list_existing_keys_def)
  then show ?thesis by (auto simp: keys_of_def)
qed

theorem lister_enumerates_all_pages_witness:
  "paged demo_ext demo_client ''bucket'' ''photos/'' None
     [[\<lparr>Key = Some ''photos/a1-p1.jpg''\<rparr>], [\<lparr>Key = Some ''photos/old.png''\<rparr>]]
   \<and> list_existing_keys demo_ext demo_client ''bucket'' ''photos/''
       = Some (Inr {''photos/a1-p1.jpg'', ''photos/old.png''})
   \<and> paged empty_ext demo_client ''bucket'' ''photos/'' None [[]]
   \<and> list_existing_keys empty_ext demo_client ''bucket'' ''photos/'' = Some (Inr {})"
proof -
  have h: "paged demo_ext demo_client ''bucket'' ''photos/'' None
     [[\<lparr>Key = Some ''photos/a1-p1.jpg''\<rparr>], [\<lparr>Key = Some ''photos/old.png''\<rparr>]]"
    by (simp add: demo_ext_def)
  have k: "keys_of (concat [[\<lparr>Key = Some ''photos/a1-p1.jpg''\<rparr>], [\<lparr>Key = Some ''photos/old.png''\<rparr>]])
             = {''photos/a1-p1.jpg'', ''photos/old.png''}"
    by (auto simp: keys_of_def)
  have h0: "paged empty_ext demo_client ''bucket'' ''photos/'' None [[]]"
    by (simp add: empty_ext_def)
  from lister_enumerates_all_pages [OF h] k
  have two: "list_existing_keys demo_ext demo_client ''bucket'' ''photos/''
               = Some (Inr {''photos/a1-p1.jpg'', ''photos/old.png''})"
    by simp
  from lister_enumerates_all_pages [OF h0]
  have none: "list_existing_keys empty_ext demo_client ''bucket'' ''photos/'' = Some (Inr {})"
    by (simp add: keys_of_def)
  from h two h0 none show ?thesis by (intro conjI)
qed

section \<open>Sync engine\<close>

text \<open>
  Claim C3. A sync run whose configuration is complete, whose listing returns and whose
  collection \<open>L\<close> can be read returns a result. The items it processes are the first
  \<open>min(n, |L|)\<close> items of \<open>L\<close> in order when the limit is \<open>n\<close> (none when \<open>n\<close> is
  not positive), and all of \<open>L\<close> without a limit. Each processed item has exactly one
  outcome; \<open>imported\<close>, \<open>skipped\<close> and the length of \<open>errors\<close> count the items of each
  outcome, so their sum is the number of processed items, which is at most \<open>|L|\<close>.
\<close>

theorem sync_run_processes_first_items:
  assumes "get_s3_client x = Inr (client, bucket)"
      and "list_existing_keys x client bucket (ensure_photo_prefix x) = Some (Inr K)"
      and "photos_all api = Inr L"
  shows "\<exists>r w'. perform_sync x api limit w = Some (Inr r, w')
           \<and> map item (journal r) = first_items limit L
           \<and> length (journal r) = (case limit of None \<Rightarrow> length L | Some n \<Rightarrow> nat (min n (int (length L))))
           \<and> imported r = int (length (filter (\<lambda>e. outcome e = Imported) (journal r)))
           \<and> skipped r = int (length (filter (\<lambda>e. outcome e = Skipped) (journal r)))
           \<and> length (errors r) = length (filter is_failed (journal r))
           \<and> imported r + skipped r + int (length (errors r)) = int (length (journal r))
           \<and> imported r + skipped r + int (length (errors r)) \<le> int (length L)"
proof -
  from perform_sync_run [OF assms, where limit = limit and w = w] obtain r w' where
    run: "perform_sync x api limit w = Some (Inr r, w')"
    and items: "map item (journal r) = first_items limit L"
    and imp: "imported r = int (length (filter (\<lambda>e. outcome e = Imported) (journal r)))"
    and skp: "skipped r = int (length (filter (\<lambda>e. outcome e = Skipped) (journal r)))"
    and err: "errors r = concat (map error_message (journal r))"
    by (elim exE conjE) (rule that)
  have "length (journal r) = length (first_items limit L)"
    using items by (metis length_map)
  then have len: "length (journal r) = (case limit of None \<Rightarrow> length L | Some n \<Rightarrow> nat (min n (int (length L))))"
    by (auto simp: first_items_def split: option.splits)
  then have le: "length (journal r) \<le> length L"
    by (auto split: option.splits)
  have nerr: "length (errors r) = length (filter is_failed (journal r))"
    using err length_error_messages by simp
  have total: "imported r + skipped r + int (length (errors r)) = int (length (journal r))"
    using imp skp nerr outcome_partition [of "journal r"] by linarith
  have bound: "imported r + skipped r + int (length (errors r)) \<le> int (length L)"
    using total le by simp
  show ?thesis
    apply (rule exI [of _ r])
    apply (rule exI [of _ w'])
    apply (intro conjI)
    apply (fact run items len imp skp nerr total bound)+
    done
qed

theorem sync_run_processes_first_items_witness:
  "get_s3_client demo_ext = Inr (demo_client, ''bucket'')
   \<and> list_existing_keys demo_ext demo_client ''bucket'' (ensure_photo_prefix demo_ext)
       = Some (Inr {''photos/a1-p1.jpg'', ''photos/old.png''})
   \<and> photos_all (demo_api False False) = Inr demo_photos
   \<and> (\<exists>r w'. perform_sync demo_ext (demo_api False False) (Some 3) demo_world = Some (Inr r, w')
         \<and> map item (journal r) = [photo_a1, photo_a1, photo_p2]
         \<and> imported r + skipped r + int (length (errors r)) = 3)"
proof -
  have f: "first_items (Some 3) demo_photos = [photo_a1, photo_a1, photo_p2]"
    by (simp add: first_items_def demo_photos_def)
  from sync_run_processes_first_items [OF demo_cfg demo_known_keys demo_api_photos [of False False],
      where limit = "Some 3" and w = demo_world]
  obtain r w' where "perform_sync demo_ext (demo_api False False) (Some 3) demo_world = Some (Inr r, w')"
    "map item (journal r) = first_items (Some 3) demo_photos"
    "imported r + skipped r + int (length (errors r)) = int (length (journal r))"
    by (elim exE conjE) (rule that)
  then have "perform_sync demo_ext (demo_api False False) (Some 3) demo_world = Some (Inr r, w')
         \<and> map item (journal r) = [photo_a1, photo_a1, photo_p2]
         \<and> imported r + skipped r + int (length (errors r)) = 3"
    unfolding f using length_map [of item "journal r"] by simp
  then have "\<exists>r w'. perform_sync demo_ext (demo_api False False) (Some 3) demo_world = Some (Inr r, w')
         \<and> map item (journal r) = [photo_a1, photo_a1, photo_p2]
         \<and> imported r + skipped r + int (length (errors r)) = 3"
    by - (rule exI, rule exI, assumption)
  with demo_cfg demo_known_keys demo_api_photos show ?thesis by simp
qed





section \<open>Beginning a login\<close>



text \<open>
  Claim C9. Resuming with a session id that is not in the table fails and changes nothing:
  the state after the call is the state before it, so the table is the same, no login was
  attempted and no sync run was started (the trace is the same). The error is the not-found
  error whenever the caller's token is accepted; a rejected token fails earlier, with the
  error of the token check.
\<close>

theorem resume_unknown_session:
  assumes "pending_sessions w (session_id payload) = None"
  shows "\<exists>e. sync_with_2fa x payload authorization w = Some (Inl e, w)
           \<and> (verify_token x authorization = None \<longrightarrow> e = HTTPException 404 ''Session not found'')"
  using assms by (simp add: sync_with_2fa_def split: option.splits)

theorem resume_unknown_session_witness:
  "pending_sessions demo_world (session_id \<lparr>session_id = ''zzz'', code = ''123456''\<rparr>) = None
   \<and> verify_token demo_ext (Some ''Bearer good'') = None
   \<and> sync_with_2fa demo_ext \<lparr>session_id = ''zzz'', code = ''123456''\<rparr> (Some ''Bearer good'') demo_world
       = Some (Inl (HTTPException 404 ''Session not found''), demo_world)"
proof -
  have h: "pending_sessions demo_world (session_id \<lparr>session_id = ''zzz'', code = ''123456''\<rparr>) = None"
    by (simp add: demo_world_def)
  from resume_unknown_session [OF h, of demo_ext "Some ''Bearer good''"] h demo_token
  show ?thesis by auto
qed

section \<open>Writing the supplied cache file\<close>

text \<open>
  Claim C10, as stated: for every supplied cache payload exactly one file is written into
  the new session directory. This fails when the final component of \<open>file_name\<close> cannot
  name a file: for \<open>file_name = "cache/"\<close> the basename is empty, the path to open is the
  directory itself, \<open>open\<close> raises and no file is written.
\<close>

theorem session_file_not_written_counterexample:
  "create_session_dir demo_ext (Some \<lparr>file_name = ''cache/'', data = ''c=1''\<rparr>) demo_world
     = (Inl (''[Errno 21] Is a directory: '' @ [CHR 0x27] @ ''/tmp/icloud-session-aaa/'' @ [CHR 0x27]),
        demo_world\<lparr>fs := fs demo_world @ [(''/tmp/icloud-session-aaa'', Dir)], mkdtemp_calls := 3\<rparr>)"
  by (simp add: create_session_dir_def mkdtemp_def demo_ext_def demo_world_def
      basename_def join_def open_write_def utf8_length_def oserror_def repr_def repr_char_def
      printable_def numeral_3_eq_3 numeral_2_eq_2 Let_def)

text \<open>
  Claim C10, amended, for a POSIX file system with UTF-8 file names and resources to
  spare: let \<open>dir\<close> be the directory that \<open>mkdtemp\<close> creates (a new path without a
  trailing slash, nothing existing at or below it, short enough to leave room for a name)
  and \<open>name\<close> the basename of the payload's \<open>file_name\<close>. The name contains no slash.
  When the name is not empty, not \<open>.\<close>, not \<open>..\<close>, free of NUL and at most 255 bytes
  long, \<open>create_session_dir\<close> returns \<open>dir\<close> and the file system gains the directory
  and exactly one file, \<open>dir/name\<close>, holding the payload's data. Otherwise the write
  raises and the file system gains the empty directory only. In both cases no path outside
  the session directory is created or changed.
\<close>

theorem session_file_written:
  assumes "dir = mkdtemp_name x ''icloud-session-'' (mkdtemp_calls w)"
      and "dir \<noteq> [] \<and> last dir \<noteq> CHR ''/'' \<and> CHR 0x00 \<notin> set dir \<and> utf8_length dir \<le> 3839"
      and "\<forall>p \<in> fst ` set (fs w). take (length dir) p \<noteq> dir"
      and "name = basename (file_name s)"
  shows "CHR ''/'' \<notin> set name
         \<and> (if name \<in> {'''', ''.'', ''..''} \<or> CHR 0x00 \<in> set name \<or> utf8_length name > 255
            then \<exists>e. create_session_dir x (Some s) w
                       = (Inl e, w\<lparr>fs := fs w @ [(dir, Dir)], mkdtemp_calls := Suc (mkdtemp_calls w)\<rparr>)
            else create_session_dir x (Some s) w
                   = (Inr dir, w\<lparr>fs := fs w @ [(dir, Dir), (dir @ ''/'' @ name, File (data s))],
                                mkdtemp_calls := Suc (mkdtemp_calls w)\<rparr>))"
proof -
  let ?path = "dir @ ''/'' @ name"
  let ?disk = "fs w @ [(dir, Dir)]"
  have slash: "CHR ''/'' \<notin> set name" using assms(4) basename_no_slash by simp
  with assms(2) have path: "join dir name = ?path" by (simp add: join_plain)
  have base: "basename ?path = name" using slash by (rule basename_child)
  have nul: "CHR 0x00 \<in> set ?path \<longleftrightarrow> CHR 0x00 \<in> set name"
    using assms(2) by auto
  have len: "utf8_length ?path = utf8_length dir + 1 + utf8_length name"
    by (simp add: utf8_length_append) (simp add: utf8_length_def)
  have long: "utf8_length ?path > 4095 \<Longrightarrow> utf8_length name > 255"
    using assms(2) len by linarith
  have "?path \<notin> fst ` set (fs w)" using assms(3) by force
  then have new: "?path \<notin> fst ` set ?disk" by auto
  then have nodir: "map_of ?disk ?path \<noteq> Some Dir"
    by (metis map_of_eq_None_iff option.distinct(1))
  have created: "AList.update ?path (File (data s)) ?disk
                   = fs w @ [(dir, Dir), (?path, File (data s))]"
    using update_new [OF new] by simp
  have wr: "open_write ?disk ?path (data s) =
     (if CHR 0x00 \<in> set name then Inl ''embedded null byte''
      else if utf8_length ?path > 4095 then Inl (oserror ENAMETOOLONG ?path)
      else if name \<in> {'''', ''.'', ''..''} then Inl (oserror EISDIR ?path)
      else if utf8_length name > 255 then Inl (oserror ENAMETOOLONG ?path)
      else Inr (fs w @ [(dir, Dir), (?path, File (data s))]))"
    unfolding open_write_def nul base created using nodir by simp
  have run: "create_session_dir x (Some s) w =
     (case open_write ?disk ?path (data s) of
        Inl e \<Rightarrow> (Inl e, w\<lparr>fs := ?disk, mkdtemp_calls := Suc (mkdtemp_calls w)\<rparr>)
      | Inr disk \<Rightarrow> (Inr dir, w\<lparr>fs := disk, mkdtemp_calls := Suc (mkdtemp_calls w)\<rparr>))"
    using assms(1,4) path
    by (simp add: create_session_dir_def mkdtemp_def Let_def split: sum.splits)
  show ?thesis
  proof (cases "name \<in> {'''', ''.'', ''..''} \<or> CHR 0x00 \<in> set name \<or> utf8_length name > 255")
    case True
    then have "\<exists>e. open_write ?disk ?path (data s) = Inl e"
      unfolding wr by auto
    then obtain e where "open_write ?disk ?path (data s) = Inl e" ..
    with run True slash show ?thesis by auto
  next
    case False
    with long have "open_write ?disk ?path (data s)
                      = Inr (fs w @ [(dir, Dir), (?path, File (data s))])"
      unfolding wr by auto
    with run False slash show ?thesis by auto
  qed
qed

theorem session_file_written_witness:
  "''/tmp/icloud-session-aaa'' = mkdtemp_name demo_ext ''icloud-session-'' (mkdtemp_calls demo_world)
   \<and> ''cookie.txt'' = basename ''../cache/cookie.txt''
   \<and> utf8_length ''cookie.txt'' = 10
   \<and> create_session_dir demo_ext (Some \<lparr>file_name = ''../cache/cookie.txt'', data = ''c=1''\<rparr>) demo_world
       = (Inr ''/tmp/icloud-session-aaa'',
          demo_world\<lparr>fs := fs demo_world @ [(''/tmp/icloud-session-aaa'', Dir),
                                            (''/tmp/icloud-session-aaa/cookie.txt'', File ''c=1'')],
                     mkdtemp_calls := Suc (mkdtemp_calls demo_world)\<rparr>)
   \<and> replicate 300 CHR ''n'' = basename (''up/'' @ replicate 300 CHR ''n'')
   \<and> utf8_length (replicate 300 CHR ''n'') = 300
   \<and> (\<exists>e. create_session_dir demo_ext
              (Some \<lparr>file_name = ''up/'' @ replicate 300 CHR ''n'', data = ''c=1''\<rparr>) demo_world
          = (Inl e, demo_world\<lparr>fs := fs demo_world @ [(''/tmp/icloud-session-aaa'', Dir)],
                              mkdtemp_calls := Suc (mkdtemp_calls demo_world)\<rparr>))"
proof -
  have d: "''/tmp/icloud-session-aaa'' = mkdtemp_name demo_ext ''icloud-session-'' (mkdtemp_calls demo_world)"
    by (simp add: demo_ext_def demo_world_def numeral_2_eq_2)
  have ok: "''/tmp/icloud-session-aaa'' \<noteq> [] \<and> last ''/tmp/icloud-session-aaa'' \<noteq> CHR ''/''
            \<and> CHR 0x00 \<notin> set ''/tmp/icloud-session-aaa''
            \<and> utf8_length ''/tmp/icloud-session-aaa'' \<le> 3839"
    by (simp add: utf8_length_def)
  have fresh: "\<forall>p \<in> fst ` set (fs demo_world). take (length ''/tmp/icloud-session-aaa'') p \<noteq> ''/tmp/icloud-session-aaa''"
    by (simp add: demo_world_def)
  have n: "''cookie.txt'' = basename (file_name \<lparr>file_name = ''../cache/cookie.txt'', data = ''c=1''\<rparr>)"
    by (simp add: basename_def)
  have l: "utf8_length ''cookie.txt'' = 10" by (simp add: utf8_length_def)
  from session_file_written [OF d ok fresh n] l
  have short: "create_session_dir demo_ext (Some \<lparr>file_name = ''../cache/cookie.txt'', data = ''c=1''\<rparr>) demo_world
       = (Inr ''/tmp/icloud-session-aaa'',
          demo_world\<lparr>fs := fs demo_world @ [(''/tmp/icloud-session-aaa'', Dir),
                                            (''/tmp/icloud-session-aaa/cookie.txt'', File ''c=1'')],
                     mkdtemp_calls := Suc (mkdtemp_calls demo_world)\<rparr>)"
    by simp
  have b: "basename (replicate 300 CHR ''n'') = replicate 300 CHR ''n''"
    by (rule basename_plain) simp
  have "basename (''up/'' @ replicate 300 CHR ''n'') = basename (''up'' @ ''/'' @ replicate 300 CHR ''n'')"
    by simp
  also have "\<dots> = replicate 300 CHR ''n''"
    by (rule basename_child) simp
  finally have n': "replicate 300 CHR ''n''
      = basename (file_name \<lparr>file_name = ''up/'' @ replicate 300 CHR ''n'', data = ''c=1''\<rparr>)"
    by simp
  have l': "utf8_length (replicate 300 CHR ''n'') = 300"
    by (rule utf8_length_replicate_ascii) simp
  from session_file_written [OF d ok fresh n'] l'
  have long: "\<exists>e. create_session_dir demo_ext
              (Some \<lparr>file_name = ''up/'' @ replicate 300 CHR ''n'', data = ''c=1''\<rparr>) demo_world
          = (Inl e, demo_world\<lparr>fs := fs demo_world @ [(''/tmp/icloud-session-aaa'', Dir)],
                              mkdtemp_calls := Suc (mkdtemp_calls demo_world)\<rparr>)"
    by simp
  from n' have n'': "replicate 300 CHR ''n'' = basename (''up/'' @ replicate 300 CHR ''n'')" by simp
  from n have n0: "''cookie.txt'' = basename ''../cache/cookie.txt''" by simp
  from d n0 l short n'' l' long show ?thesis by (intro conjI)
qed

end
